theory Spec2Isabelle
  imports Main
begin

section \<open>The authenticated-request pipeline of \<^verbatim>\<open>frontend/src/lib/api.client.ts\<close>\<close>

text \<open>
  The module is single-threaded JavaScript. Every function body runs to its next
  \<^verbatim>\<open>await\<close> without interruption, so each such stretch of code is one function on
  an explicit state, the record \<open>world\<close>. Promise reactions are jobs of a FIFO
  microtask queue that is emptied after every event of the environment.
\<close>

subsection \<open>Values\<close>

text \<open>JavaScript truthiness of a \<^verbatim>\<open>string | null\<close> and of an optional number.\<close>

fun truthy :: "string option \<Rightarrow> bool" where
  "truthy None = False"
| "truthy (Some s) = (s \<noteq> [])"

fun truthy_num :: "nat option \<Rightarrow> bool" where
  "truthy_num None = False"
| "truthy_num (Some n) = (n \<noteq> 0)"

text \<open>
  An Axios request configuration: the fields the interceptors read and write.
  \<open>has_headers\<close> is the test \<^verbatim>\<open>config.headers\<close>, \<open>authorization\<close> the entry
  \<^verbatim>\<open>config.headers.Authorization\<close>, \<open>retry\<close> the marker \<^verbatim>\<open>_retry\<close> (absent reads as
  false) and \<open>retryCount\<close> the marker \<^verbatim>\<open>_retryCount\<close>.
\<close>

record request =
  url :: string
  has_headers :: bool
  authorization :: "string option"
  retry :: bool
  retryCount :: "nat option"

record response =
  status :: nat
  data :: string

text \<open>
  What a promise can be rejected with: an \<^verbatim>\<open>AxiosError\<close> (with \<^verbatim>\<open>error.config\<close> and
  \<^verbatim>\<open>error.response?.status\<close>), another \<^verbatim>\<open>Error\<close> instance, or a thrown value that is
  not an \<^verbatim>\<open>Error\<close>.
\<close>

datatype js_error =
    AxiosError "request option" "nat option"
  | OtherError string
  | NonError string

fun err_config :: "js_error \<Rightarrow> request option" where
  "err_config (AxiosError c s) = c"
| "err_config (OtherError m) = None"
| "err_config (NonError m) = None"

fun err_status :: "js_error \<Rightarrow> nat option" where
  "err_status (AxiosError c s) = s"
| "err_status (OtherError m) = None"
| "err_status (NonError m) = None"

fun instanceof_Error :: "js_error \<Rightarrow> bool" where
  "instanceof_Error (NonError m) = False"
| "instanceof_Error e = True"

datatype outcome = Resolved response | Rejected js_error

datatype dom_exception = SecurityError | QuotaExceededError

text \<open>
  A caller's promise is identified by a number (\<open>chain\<close>). Microtasks: the
  \<^verbatim>\<open>.then\<close> and \<^verbatim>\<open>.catch\<close> handlers of a queued entry, and the two halves of the
  request interceptor around its \<^verbatim>\<open>await tokenManager.initialize()\<close>. When
  \<^verbatim>\<open>initialize()\<close> returns \<^verbatim>\<open>this.initPromise\<close>, the promise of the call is resolved
  with a promise: one job takes the \<^verbatim>\<open>then\<close> of \<^verbatim>\<open>initPromise\<close>, a second one is
  its reaction and settles the promise of the call, and only then is the continuation of
  the \<^verbatim>\<open>await\<close> queued.
\<close>

type_synonym chain = nat

datatype job =
    QueueResolved chain request "string option"
  | QueueRejected chain js_error
  | RequestInterceptor chain request
  | InitPromiseThenable chain request
  | InitPromiseReaction chain request
  | RequestInterceptorResume chain request

text \<open>
  What leaves the browser: a request dispatched by \<open>apiClient\<close> with its final
  configuration, or a raw \<^verbatim>\<open>axios.post(url, {refreshToken})\<close> of the default Axios
  instance, with its URL, its \<^verbatim>\<open>Authorization\<close> header and the refresh token of its body.
\<close>

datatype wire = ClientSend chain request | RawPost string "string option" string

datatype nav = RouterNav string | LocationHref string

datatype refresh_result = RefreshOk string string | RefreshFailed js_error

subsection \<open>State\<close>

record world =
  \<comment> \<open>environment\<close>
  has_window :: bool
  storage_disabled :: bool
  unauthorizedRedirect :: string
  \<comment> \<open>\<^verbatim>\<open>localStorage\<close>; each \<^verbatim>\<open>setItem\<close> takes the next entry of \<open>quota_faults\<close>\<close>
  ls_items :: "string \<rightharpoonup> string"
  quota_faults :: "bool list"
  \<comment> \<open>\<^verbatim>\<open>TokenManager\<close>\<close>
  accessToken :: "string option"
  refreshToken :: "string option"
  isInitialized :: bool
  initPromise :: bool
  \<comment> \<open>module variables of \<^verbatim>\<open>api.client.ts\<close> and \<^verbatim>\<open>navigation.ts\<close>\<close>
  isRefreshing :: bool
  failedQueue :: "(chain \<times> request) list"
  navigateFunction :: bool
  \<comment> \<open>suspended continuations\<close>
  microtasks :: "job list"
  refreshWaiters :: "(chain \<times> request \<times> string) list"
  timers :: "(nat \<times> chain \<times> request) list"
  \<comment> \<open>what the environment observes\<close>
  wire :: "wire list"
  client_calls :: "(chain \<times> request) list"
  outcomes :: "(chain \<times> outcome) list"
  nav_log :: "nav list"
  navigateToLogin_calls :: nat
  console :: "string list"
  storage_reads :: nat

definition warn :: "string \<Rightarrow> world \<Rightarrow> world" where
  "warn msg w = w\<lparr>console := console w @ [msg]\<rparr>"

subsection \<open>\<^verbatim>\<open>localStorage\<close>\<close>

text \<open>
  The Web Storage contract: with storage disabled every access throws; otherwise only
  \<^verbatim>\<open>setItem\<close> can throw, when the quota is exceeded.
\<close>

definition getItem :: "string \<Rightarrow> world \<Rightarrow> dom_exception + string option" where
  "getItem k w = (if storage_disabled w then Inl SecurityError else Inr (ls_items w k))"

definition setItem :: "string \<Rightarrow> string \<Rightarrow> world \<Rightarrow> dom_exception option \<times> world" where
  "setItem k v w =
     (if storage_disabled w then (Some SecurityError, w)
      else case quota_faults w of
             [] \<Rightarrow> (None, w\<lparr>ls_items := (ls_items w)(k \<mapsto> v)\<rparr>)
           | f # fs \<Rightarrow>
               if f then (Some QuotaExceededError, w\<lparr>quota_faults := fs\<rparr>)
               else (None, w\<lparr>quota_faults := fs, ls_items := (ls_items w)(k \<mapsto> v)\<rparr>))"

definition removeItem :: "string \<Rightarrow> world \<Rightarrow> dom_exception option \<times> world" where
  "removeItem k w =
     (if storage_disabled w then (Some SecurityError, w)
      else (None, w\<lparr>ls_items := (ls_items w)(k := None)\<rparr>))"

subsection \<open>\<^verbatim>\<open>TokenManager\<close>\<close>

text \<open>The private \<^verbatim>\<open>getStoredTokens\<close>; \<open>storage_reads\<close> counts its loads from storage.\<close>

definition getStoredTokens :: "world \<Rightarrow> (string option \<times> string option) \<times> world" where
  "getStoredTokens w =
     (if \<not> has_window w then ((None, None), w)
      else
        let w1 = w\<lparr>storage_reads := Suc (storage_reads w)\<rparr> in
        case getItem ''accessToken'' w1 of
          Inl e \<Rightarrow> ((None, None), warn ''Failed to read stored tokens:'' w1)
        | Inr a \<Rightarrow>
            (case getItem ''refreshToken'' w1 of
               Inl e \<Rightarrow> ((None, None), warn ''Failed to read stored tokens:'' w1)
             | Inr r \<Rightarrow> ((a, r), w1)))"

text \<open>
  \<^verbatim>\<open>_doInitialize\<close> has no \<^verbatim>\<open>await\<close>: it runs to its end when called. Nothing in its
  \<^verbatim>\<open>try\<close> block throws (\<open>getStoredTokens\<close> catches), so the \<^verbatim>\<open>catch\<close> branch is
  never taken; the \<^verbatim>\<open>finally\<close> block resets \<open>initPromise\<close>.
\<close>

definition doInitialize :: "world \<Rightarrow> world" where
  "doInitialize w =
     (let (stored, w1) = getStoredTokens w;
          w2 = (if truthy (fst stored) \<and> truthy (snd stored)
                then w1\<lparr>accessToken := fst stored, refreshToken := snd stored\<rparr>
                else w1);
          w3 = w2\<lparr>isInitialized := True\<rparr>
      in w3\<lparr>initPromise := False\<rparr>)"

text \<open>
  \<^verbatim>\<open>this.initPromise = this._doInitialize()\<close>: the assignment happens after the body of
  \<^verbatim>\<open>_doInitialize\<close> has run, and stores the promise it returned.
\<close>

definition initialize :: "world \<Rightarrow> world" where
  "initialize w =
     (if isInitialized w \<or> \<not> has_window w then w
      else if initPromise w then w
      else (doInitialize w)\<lparr>initPromise := True\<rparr>)"

text \<open>
  What \<^verbatim>\<open>initialize()\<close> returns: nothing, on its first line, or the promise
  \<^verbatim>\<open>this.initPromise\<close>, on either of the two others.
\<close>

definition initialize_returns_promise :: "world \<Rightarrow> bool" where
  "initialize_returns_promise w = (\<not> (isInitialized w \<or> \<not> has_window w))"

definition setTokens :: "string \<Rightarrow> string \<Rightarrow> world \<Rightarrow> world" where
  "setTokens access refresh w =
     (let w1 = w\<lparr>accessToken := Some access, refreshToken := Some refresh\<rparr> in
      if has_window w1 then
        (case setItem ''accessToken'' access w1 of
           (Some e, w2) \<Rightarrow> warn ''Failed to store tokens:'' w2
         | (None, w2) \<Rightarrow>
             (case setItem ''refreshToken'' refresh w2 of
                (Some e, w3) \<Rightarrow> warn ''Failed to store tokens:'' w3
              | (None, w3) \<Rightarrow> w3))
      else w1)"

definition clearTokens :: "world \<Rightarrow> world" where
  "clearTokens w =
     (let w1 = w\<lparr>accessToken := None, refreshToken := None\<rparr> in
      if has_window w1 then
        (case removeItem ''accessToken'' w1 of
           (Some e, w2) \<Rightarrow> warn ''Failed to clear tokens:'' w2
         | (None, w2) \<Rightarrow>
             (case removeItem ''refreshToken'' w2 of
                (Some e, w3) \<Rightarrow> warn ''Failed to clear tokens:'' w3
              | (None, w3) \<Rightarrow> w3))
      else w1)"

definition getAccessToken :: "world \<Rightarrow> string option" where
  "getAccessToken w = accessToken w"

definition getRefreshToken :: "world \<Rightarrow> string option" where
  "getRefreshToken w = refreshToken w"

text \<open>The exported \<^verbatim>\<open>getStoredTokens\<close>: what durable storage shows to the application.\<close>

definition getStoredTokens_export :: "world \<Rightarrow> string option \<times> string option" where
  "getStoredTokens_export w =
     (if \<not> has_window w then (None, None)
      else case getItem ''accessToken'' w of
             Inl e \<Rightarrow> (None, None)
           | Inr a \<Rightarrow> (case getItem ''refreshToken'' w of
                         Inl e \<Rightarrow> (None, None)
                       | Inr r \<Rightarrow> (a, r)))"

subsection \<open>Sequences of Credential Store operations\<close>

datatype store_op = Initialize | SetTokens string string | ClearTokens

fun apply_op :: "store_op \<Rightarrow> world \<Rightarrow> world" where
  "apply_op Initialize w = initialize w"
| "apply_op (SetTokens a r) w = setTokens a r w"
| "apply_op ClearTokens w = clearTokens w"

definition apply_ops :: "store_op list \<Rightarrow> world \<Rightarrow> world" where
  "apply_ops ops w = fold apply_op ops w"

text \<open>The constructor of \<^verbatim>\<open>TokenManager\<close>: the four field initialisers.\<close>

definition new_TokenManager :: "world \<Rightarrow> world" where
  "new_TokenManager w =
     w\<lparr>accessToken := None, refreshToken := None, isInitialized := False, initPromise := False\<rparr>"

text \<open>The pair the getters show is complete or absent.\<close>

definition all_or_nothing :: "world \<Rightarrow> bool" where
  "all_or_nothing w = ((getAccessToken w = None) = (getRefreshToken w = None))"

text \<open>The pair that the exported \<^verbatim>\<open>getStoredTokens\<close> reads from storage is complete or absent.\<close>

definition durable_all_or_nothing :: "world \<Rightarrow> bool" where
  "durable_all_or_nothing w =
     ((fst (getStoredTokens_export w) = None) = (snd (getStoredTokens_export w) = None))"

text \<open>
  The first of the two writes of \<open>setTokens\<close> will succeed and the second will fail
  for quota.
\<close>

definition second_write_fails :: "world \<Rightarrow> bool" where
  "second_write_fails w =
     (has_window w \<and> \<not> storage_disabled w \<and> take 2 (quota_faults w) = [False, True])"

subsection \<open>Callers of \<open>initialize\<close>\<close>

text \<open>
  A caller runs \<^verbatim>\<open>await tokenManager.initialize()\<close>: the call (\<open>InitCall\<close>) and, in a
  later job, the continuation after the \<^verbatim>\<open>await\<close> (\<open>InitDone\<close>), which sees the store
  as it is then.
\<close>

datatype init_event = InitCall nat | InitDone nat

type_synonym store_view = "string option \<times> string option \<times> bool"

definition store_view :: "world \<Rightarrow> store_view" where
  "store_view w = (accessToken w, refreshToken w, isInitialized w)"

fun run_init :: "init_event list \<Rightarrow> world \<times> (nat \<times> store_view) list \<Rightarrow> world \<times> (nat \<times> store_view) list" where
  "run_init [] (w, seen) = (w, seen)"
| "run_init (InitCall i # es) (w, seen) = run_init es (initialize w, seen)"
| "run_init (InitDone i # es) (w, seen) = run_init es (w, seen @ [(i, store_view w)])"

fun interleave :: "'a list \<Rightarrow> 'a list \<Rightarrow> 'a list list" where
  "interleave [] ys = [ys]"
| "interleave xs [] = [xs]"
| "interleave (x # xs) (y # ys) =
     map ((#) x) (interleave xs (y # ys)) @ map ((#) y) (interleave (x # xs) ys)"

subsection \<open>\<^verbatim>\<open>navigation.ts\<close>\<close>

definition navigateTo :: "string \<Rightarrow> world \<Rightarrow> world" where
  "navigateTo path w =
     (if navigateFunction w then w\<lparr>nav_log := nav_log w @ [RouterNav path]\<rparr>
      else if has_window w then w\<lparr>nav_log := nav_log w @ [LocationHref path]\<rparr>
      else w)"

definition navigateToLogin :: "world \<Rightarrow> world" where
  "navigateToLogin w =
     navigateTo (unauthorizedRedirect w) (w\<lparr>navigateToLogin_calls := Suc (navigateToLogin_calls w)\<rparr>)"

subsection \<open>The client and its interceptors\<close>

definition bearer :: "string \<Rightarrow> string" where
  "bearer token = ''Bearer '' @ token"

text \<open>
  \<^verbatim>\<open>if (token && config.headers) config.headers.Authorization = `Bearer ${token}`\<close>,
  as in the request interceptor and in the \<^verbatim>\<open>.then\<close> handler of a queued entry.
\<close>

fun with_bearer :: "string option \<Rightarrow> request \<Rightarrow> request" where
  "with_bearer None config = config"
| "with_bearer (Some token) config =
     (if token \<noteq> [] \<and> has_headers config
      then config\<lparr>authorization := Some (bearer token)\<rparr> else config)"

text \<open>A caller's promise settles.\<close>

definition settle :: "chain \<Rightarrow> outcome \<Rightarrow> world \<Rightarrow> world" where
  "settle c out w = w\<lparr>outcomes := outcomes w @ [(c, out)]\<rparr>"

text \<open>
  \<^verbatim>\<open>apiClient(config)\<close>: the interceptor chain is a promise chain, so the request
  interceptor starts in a microtask.
\<close>

definition apiClient :: "chain \<Rightarrow> request \<Rightarrow> world \<Rightarrow> world" where
  "apiClient c config w =
     w\<lparr>client_calls := client_calls w @ [(c, config)],
       microtasks := microtasks w @ [RequestInterceptor c config]\<rparr>"

text \<open>
  \<^verbatim>\<open>processQueue\<close>: \<^verbatim>\<open>resolve\<close> and \<^verbatim>\<open>reject\<close> settle the promise of each entry; the
  handlers attached to it run later, as microtasks, in the order of the entries.
\<close>

definition processQueue :: "js_error option \<Rightarrow> string option \<Rightarrow> world \<Rightarrow> world" where
  "processQueue error token w =
     w\<lparr>microtasks := microtasks w @
         map (\<lambda>(c, originalRequest).
                case error of Some e \<Rightarrow> QueueRejected c e
                            | None \<Rightarrow> QueueResolved c originalRequest token)
             (failedQueue w),
       failedQueue := []\<rparr>"

fun run_job :: "job \<Rightarrow> world \<Rightarrow> world" where
  "run_job (QueueResolved c originalRequest token) w =
     apiClient c (with_bearer token originalRequest) w"
| "run_job (QueueRejected c err) w = settle c (Rejected err) w"
| "run_job (RequestInterceptor c config) w =
     (let w1 = initialize w
      in if initialize_returns_promise w
         then w1\<lparr>microtasks := microtasks w1 @ [InitPromiseThenable c config]\<rparr>
         else w1\<lparr>microtasks := microtasks w1 @ [RequestInterceptorResume c config]\<rparr>)"
| "run_job (InitPromiseThenable c config) w =
     w\<lparr>microtasks := microtasks w @ [InitPromiseReaction c config]\<rparr>"
| "run_job (InitPromiseReaction c config) w =
     w\<lparr>microtasks := microtasks w @ [RequestInterceptorResume c config]\<rparr>"
| "run_job (RequestInterceptorResume c config) w =
     w\<lparr>wire := wire w @ [ClientSend c (with_bearer (getAccessToken w) config)]\<rparr>"

fun job_weight :: "job \<Rightarrow> nat" where
  "job_weight (QueueResolved c r t) = 5"
| "job_weight (QueueRejected c e) = 1"
| "job_weight (RequestInterceptor c r) = 4"
| "job_weight (InitPromiseThenable c r) = 3"
| "job_weight (InitPromiseReaction c r) = 2"
| "job_weight (RequestInterceptorResume c r) = 1"

text \<open>The microtask queue is emptied, first in first out, jobs added on the way included.\<close>

function drain :: "world \<Rightarrow> world" where
  "drain w =
     (case microtasks w of
        [] \<Rightarrow> w
      | j # js \<Rightarrow> drain (run_job j (w\<lparr>microtasks := js\<rparr>)))"
  by pat_completeness auto
termination
proof (relation "measure (\<lambda>w. sum_list (map job_weight (microtasks w)))")
  show "wf (measure (\<lambda>w. sum_list (map job_weight (microtasks w))))"
    by simp
next
  fix w :: world and j js
  assume "microtasks w = j # js"
  then show "(run_job j (w\<lparr>microtasks := js\<rparr>), w)
               \<in> measure (\<lambda>w. sum_list (map job_weight (microtasks w)))"
    by (cases j)
       (auto simp: apiClient_def settle_def initialize_def doInitialize_def getStoredTokens_def
                   getItem_def warn_def Let_def split: prod.splits sum.splits)
qed

text \<open>The response interceptor: \<open>onFulfilled\<close> returns the response.\<close>

definition onFulfilled :: "chain \<Rightarrow> response \<Rightarrow> world \<Rightarrow> world" where
  "onFulfilled c resp w = settle c (Resolved resp) w"

text \<open>
  \<open>onRejected\<close>, up to its first \<^verbatim>\<open>await\<close>. The continuation behind
  \<^verbatim>\<open>await axios.post(...)\<close> is kept in \<open>refreshWaiters\<close> with the \<open>originalRequest\<close>
  and the refresh token it has captured, the one behind the one-second timer in \<open>timers\<close>.
\<close>

definition onRejected :: "chain \<Rightarrow> js_error \<Rightarrow> world \<Rightarrow> world" where
  "onRejected c error w =
     (case err_config error of
        None \<Rightarrow> settle c (Rejected error) w
      | Some originalRequest \<Rightarrow>
          if err_status error = Some 401 \<and> \<not> retry originalRequest then
            (case getRefreshToken w of
               None \<Rightarrow> settle c (Rejected error) (navigateToLogin (clearTokens w))
             | Some token \<Rightarrow>
                 if token = [] then
                   settle c (Rejected error) (navigateToLogin (clearTokens w))
                 else if isRefreshing w then
                   w\<lparr>failedQueue := failedQueue w @ [(c, originalRequest)]\<rparr>
                 else
                   w\<lparr>isRefreshing := True,
                     wire := wire w @ [RawPost ''/api/auth/refresh'' None token],
                     refreshWaiters := refreshWaiters w @
                       [(c, originalRequest\<lparr>retry := True\<rparr>, token)]\<rparr>)
          else if err_status error = None \<and> \<not> truthy_num (retryCount originalRequest) then
            w\<lparr>timers := timers w @ [(1000, c, originalRequest\<lparr>retryCount := Some 1\<rparr>)]\<rparr>
          else settle c (Rejected error) w)"

text \<open>
  The continuation of the refresh: the \<^verbatim>\<open>try\<close> block after the \<^verbatim>\<open>await\<close> when the
  call succeeded, the \<^verbatim>\<open>catch\<close> block when it failed, and the \<^verbatim>\<open>finally\<close> block. A
  successful response carries the new pair.
\<close>

definition refreshSettled :: "refresh_result \<Rightarrow> world \<Rightarrow> world" where
  "refreshSettled res w =
     (case refreshWaiters w of
        [] \<Rightarrow> w
      | (c, originalRequest, token) # rest \<Rightarrow>
          (case res of
             RefreshOk newAccessToken newRefreshToken \<Rightarrow>
               (let w1 = setTokens newAccessToken newRefreshToken (w\<lparr>refreshWaiters := rest\<rparr>);
                    w2 = processQueue None (Some newAccessToken) w1;
                    retried = (if has_headers originalRequest
                               then originalRequest\<lparr>authorization := Some (bearer newAccessToken)\<rparr>
                               else originalRequest);
                    w3 = apiClient c retried w2
                in w3\<lparr>isRefreshing := False\<rparr>)
           | RefreshFailed refreshError \<Rightarrow>
               (let w1 = processQueue
                           (Some (if instanceof_Error refreshError then refreshError
                                  else OtherError ''Token refresh failed''))
                           None (w\<lparr>refreshWaiters := rest\<rparr>);
                    w2 = clearTokens w1;
                    w3 = navigateToLogin w2;
                    w4 = settle c (Rejected refreshError) w3
                in w4\<lparr>isRefreshing := False\<rparr>)))"

text \<open>The one-second timer of the oldest waiting request fires.\<close>

definition timerFired :: "world \<Rightarrow> world" where
  "timerFired w =
     (case timers w of
        [] \<Rightarrow> w
      | (delay, c, originalRequest) # rest \<Rightarrow> apiClient c originalRequest (w\<lparr>timers := rest\<rparr>))"

subsection \<open>Events\<close>

text \<open>
  What the environment does: the application calls the client or an exported function,
  the transport answers a request of the client, the refresh call settles, a timer
  fires. After each event the microtask queue is emptied.
\<close>

datatype event =
    Call chain request
  | Respond chain response
  | Fail chain js_error
  | RefreshSettles refresh_result
  | TimerFires
  | ExportSetTokens string string
  | ExportClearTokens
  | SetNavigateFunction

fun handle :: "event \<Rightarrow> world \<Rightarrow> world" where
  "handle (Call c config) w = apiClient c config w"
| "handle (Respond c resp) w = onFulfilled c resp w"
| "handle (Fail c error) w = onRejected c error w"
| "handle (RefreshSettles res) w = refreshSettled res w"
| "handle TimerFires w = timerFired w"
| "handle (ExportSetTokens a r) w = setTokens a r w"
| "handle ExportClearTokens w = clearTokens w"
| "handle SetNavigateFunction w = w\<lparr>navigateFunction := True\<rparr>"

definition step :: "event \<Rightarrow> world \<Rightarrow> world" where
  "step ev w = drain (handle ev w)"

definition run :: "event list \<Rightarrow> world \<Rightarrow> world" where
  "run evs w = fold step evs w"

text \<open>An authentication failure and a transport failure of a request.\<close>

definition unauthorized :: "request \<Rightarrow> js_error" where
  "unauthorized config = AxiosError (Some config) (Some 401)"

definition no_response :: "request \<Rightarrow> js_error" where
  "no_response config = AxiosError (Some config) None"

text \<open>The refresh calls among what was sent.\<close>

fun is_refresh_call :: "wire \<Rightarrow> bool" where
  "is_refresh_call (RawPost u h b) = (u = ''/api/auth/refresh'')"
| "is_refresh_call (ClientSend c r) = False"

definition refresh_calls :: "world \<Rightarrow> wire list" where
  "refresh_calls w = filter is_refresh_call (wire w)"

text \<open>A page in a browser, as the module finds it when it is loaded.\<close>

definition page :: world where
  "page =
     \<lparr>has_window = True, storage_disabled = False, unauthorizedRedirect = ''/login'',
      ls_items = Map.empty, quota_faults = [],
      accessToken = None, refreshToken = None, isInitialized = False, initPromise = False,
      isRefreshing = False, failedQueue = [], navigateFunction = True,
      microtasks = [], refreshWaiters = [], timers = [],
      wire = [], client_calls = [], outcomes = [], nav_log = [],
      navigateToLogin_calls = 0, console = [], storage_reads = 0\<rparr>"

definition get :: "string \<Rightarrow> request" where
  "get u = \<lparr>url = u, has_headers = True, authorization = None, retry = False, retryCount = None\<rparr>"

text \<open>A page whose storage holds a pair, and one whose storage holds half a pair.\<close>

definition stored_page :: world where
  "stored_page = page\<lparr>ls_items := [''accessToken'' \<mapsto> ''A1'', ''refreshToken'' \<mapsto> ''R1'']\<rparr>"

definition half_stored_page :: world where
  "half_stored_page = page\<lparr>ls_items := [''accessToken'' \<mapsto> ''A1'']\<rparr>"

subsection \<open>Predicates and scenarios of the properties\<close>

text \<open>
  The store needs no load any more: \<open>initialize\<close> returns at once. Every request
  that went through the request interceptor has left the store so.
\<close>

definition store_ready :: "world \<Rightarrow> bool" where
  "store_ready w = (isInitialized w \<or> \<not> has_window w)"

text \<open>
  At most one refresh call is outstanding, and \<open>isRefreshing\<close> tells whether one is.
\<close>

definition at_most_one_refresh :: "world \<Rightarrow> bool" where
  "at_most_one_refresh w =
     (length (refreshWaiters w) \<le> 1 \<and> isRefreshing w = (refreshWaiters w \<noteq> []))"

text \<open>
  \<open>initiated_ahead a b order\<close>: in the order in which calls were initiated, a call
  of chain \<open>a\<close> stands before the first call of chain \<open>b\<close>.
\<close>

definition initiated_ahead :: "chain \<Rightarrow> chain \<Rightarrow> chain list \<Rightarrow> bool" where
  "initiated_ahead a b order = (a \<in> set (takeWhile (\<lambda>c. c \<noteq> b) order))"

text \<open>
  The scenario of the specification: the pair \<open>(A1, R1)\<close> is stored, three requests
  are sent and each receives a 401. \<open>sent u token\<close> is the configuration of a request
  as the request interceptor sent it.
\<close>

definition sent :: "string \<Rightarrow> string \<Rightarrow> request" where
  "sent u token = (get u)\<lparr>authorization := Some (bearer token)\<rparr>"

definition dispatched_page :: world where
  "dispatched_page =
     page\<lparr>ls_items := [''accessToken'' \<mapsto> ''A1'', ''refreshToken'' \<mapsto> ''R1''],
          accessToken := Some ''A1'', refreshToken := Some ''R1'',
          isInitialized := True, initPromise := True,
          wire := [ClientSend 1 (sent ''/x'' ''A1''), ClientSend 2 (sent ''/y'' ''A1''),
                   ClientSend 3 (sent ''/z'' ''A1'')],
          client_calls := [(1, get ''/x''), (2, get ''/y''), (3, get ''/z'')],
          storage_reads := 1\<rparr>"

definition refreshing_page :: world where
  "refreshing_page =
     dispatched_page\<lparr>isRefreshing := True,
       failedQueue := [(2, sent ''/y'' ''A1''), (3, sent ''/z'' ''A1'')],
       refreshWaiters := [(1, (sent ''/x'' ''A1'')\<lparr>retry := True\<rparr>, ''R1'')],
       wire := wire dispatched_page @ [RawPost ''/api/auth/refresh'' None ''R1'']\<rparr>"

definition sign_in_and_call :: "event list" where
  "sign_in_and_call =
     [ExportSetTokens ''A1'' ''R1'', Call 1 (get ''/x''), Call 2 (get ''/y''), Call 3 (get ''/z'')]"

definition all_unauthorized :: "event list" where
  "all_unauthorized =
     [Fail 1 (unauthorized (sent ''/x'' ''A1'')), Fail 2 (unauthorized (sent ''/y'' ''A1'')),
      Fail 3 (unauthorized (sent ''/z'' ''A1''))]"


definition nearly_full_page :: world where
  "nearly_full_page = page\<lparr>quota_faults := [False, True]\<rparr>"

text \<open>
  A request is retried after a refresh and the application clears the credentials while
  the retry is in flight.
\<close>

definition logout_during_retry :: "event list" where
  "logout_during_retry =
     [ExportSetTokens ''A1'' ''R1'', Call 1 (get ''/x''), Fail 1 (unauthorized (sent ''/x'' ''A1'')),
      RefreshSettles (RefreshOk ''A2'' ''R2''), ExportClearTokens]"

section \<open>The Credential Store\<close>

lemma initialize_initialized: "isInitialized w \<Longrightarrow> initialize w = w"
  by (simp add: initialize_def)

lemma getStoredTokens_fields:
  "accessToken (snd (getStoredTokens w)) = accessToken w"
  "refreshToken (snd (getStoredTokens w)) = refreshToken w"
  "storage_reads (snd (getStoredTokens w)) =
     (if has_window w then Suc (storage_reads w) else storage_reads w)"
  by (simp_all add: getStoredTokens_def getItem_def warn_def Let_def)

lemma isInitialized_initialize:
  "has_window w \<Longrightarrow> \<not> initPromise w \<Longrightarrow> isInitialized (initialize w)"
  by (simp add: initialize_def doInitialize_def Let_def case_prod_beta)

lemma storage_reads_initialize:
  "has_window w \<Longrightarrow> \<not> isInitialized w \<Longrightarrow> \<not> initPromise w \<Longrightarrow>
   storage_reads (initialize w) = Suc (storage_reads w)"
  by (simp add: initialize_def doInitialize_def Let_def case_prod_beta getStoredTokens_fields)

text \<open>
  C7. In a browser, two callers of \<open>initialize\<close> on a store that has not been
  initialised, in any order of their two calls and two continuations (the second call
  before or after the first caller resumes): storage is loaded exactly once, by the
  first call, and both callers resume on the same store, the one that load left.
\<close>

theorem initialize_once:
  assumes "has_window w" and "\<not> isInitialized w" and "\<not> initPromise w"
      and "es \<in> set (interleave [InitCall 0, InitDone 0] [InitCall 1, InitDone 1])"
  shows "fst (run_init es (w, [])) = initialize w \<and>
         storage_reads (fst (run_init es (w, []))) = Suc (storage_reads w) \<and>
         map snd (snd (run_init es (w, []))) =
           [store_view (initialize w), store_view (initialize w)] \<and>
         set (map fst (snd (run_init es (w, [])))) = {0, 1}"
proof -
  have i: "initialize (initialize w) = initialize w"
    using assms(1,3) by (simp add: initialize_initialized isInitialized_initialize)
  have r: "storage_reads (initialize w) = Suc (storage_reads w)"
    using assms(1-3) by (rule storage_reads_initialize)
  from assms(4) show ?thesis
    by (auto simp: i r)
qed

theorem initialize_once_witness:
  "has_window stored_page \<and> \<not> isInitialized stored_page \<and> \<not> initPromise stored_page \<and>
   [InitCall 0, InitCall 1, InitDone 0, InitDone 1]
     \<in> set (interleave [InitCall 0, InitDone 0] [InitCall 1, InitDone 1]) \<and>
   storage_reads (fst (run_init [InitCall 0, InitCall 1, InitDone 0, InitDone 1] (stored_page, []))) = 1 \<and>
   map snd (snd (run_init [InitCall 0, InitCall 1, InitDone 0, InitDone 1] (stored_page, []))) =
     [(Some ''A1'', Some ''R1'', True), (Some ''A1'', Some ''R1'', True)]"
proof -
  have h: "has_window stored_page" "\<not> isInitialized stored_page" "\<not> initPromise stored_page"
    by (simp_all add: stored_page_def page_def)
  have m: "[InitCall 0, InitCall 1, InitDone 0, InitDone 1]
             \<in> set (interleave [InitCall 0, InitDone 0] [InitCall 1, InitDone 1])"
    by simp
  have v: "store_view (initialize stored_page) = (Some ''A1'', Some ''R1'', True)"
    by (simp add: store_view_def initialize_def doInitialize_def getStoredTokens_def getItem_def
          stored_page_def page_def Let_def)
  have s: "storage_reads stored_page = 0"
    by (simp add: stored_page_def page_def)
  from initialize_once [OF h m]
  have c: "storage_reads (fst (run_init [InitCall 0, InitCall 1, InitDone 0, InitDone 1] (stored_page, [])))
             = Suc (storage_reads stored_page)"
          "map snd (snd (run_init [InitCall 0, InitCall 1, InitDone 0, InitDone 1] (stored_page, []))) =
             [store_view (initialize stored_page), store_view (initialize stored_page)]"
    by blast+
  show ?thesis
    unfolding c v s using h m by (simp del: interleave.simps)
qed

lemma all_or_nothing_initialize: "all_or_nothing w \<Longrightarrow> all_or_nothing (initialize w)"
  by (auto simp: all_or_nothing_def getAccessToken_def getRefreshToken_def initialize_def
        doInitialize_def getStoredTokens_def getItem_def warn_def Let_def split: prod.splits)

lemma all_or_nothing_setTokens: "all_or_nothing (setTokens a r w)"
  by (auto simp: all_or_nothing_def getAccessToken_def getRefreshToken_def setTokens_def
        setItem_def warn_def Let_def split: prod.splits option.splits list.splits if_splits)

lemma all_or_nothing_clearTokens: "all_or_nothing (clearTokens w)"
  by (auto simp: all_or_nothing_def getAccessToken_def getRefreshToken_def clearTokens_def
        removeItem_def warn_def Let_def split: prod.splits option.splits list.splits if_splits)

lemma all_or_nothing_apply_op: "all_or_nothing w \<Longrightarrow> all_or_nothing (apply_op op w)"
  by (cases op)
     (simp_all add: all_or_nothing_initialize all_or_nothing_setTokens all_or_nothing_clearTokens)

lemma all_or_nothing_fold: "all_or_nothing w \<Longrightarrow> all_or_nothing (fold apply_op ops w)"
  by (induction ops arbitrary: w) (simp_all add: all_or_nothing_apply_op)

lemma durable_initialize: "getStoredTokens_export (initialize w) = getStoredTokens_export w"
  by (simp add: getStoredTokens_export_def initialize_def doInitialize_def getStoredTokens_def
        getItem_def warn_def Let_def)

lemma quota_faults_initialize: "quota_faults (initialize w) = quota_faults w"
  by (simp add: initialize_def doInitialize_def getStoredTokens_def getItem_def warn_def Let_def)

lemma durable_clearTokens:
  "durable_all_or_nothing (clearTokens w) \<and> quota_faults (clearTokens w) = quota_faults w"
  by (simp add: durable_all_or_nothing_def getStoredTokens_export_def clearTokens_def removeItem_def
        getItem_def warn_def Let_def)

lemma durable_setTokens:
  "durable_all_or_nothing w \<Longrightarrow> \<not> second_write_fails w \<Longrightarrow>
   durable_all_or_nothing (setTokens a r w)"
  by (auto simp: durable_all_or_nothing_def second_write_fails_def getStoredTokens_export_def
        setTokens_def setItem_def getItem_def warn_def Let_def split: list.splits if_splits)

lemma quota_faults_setTokens:
  "True \<notin> set (quota_faults w) \<Longrightarrow> True \<notin> set (quota_faults (setTokens a r w))"
  by (auto simp: setTokens_def setItem_def warn_def Let_def split: list.splits if_splits)

lemma no_fault_no_second_write_failure:
  "True \<notin> set (quota_faults w) \<Longrightarrow> \<not> second_write_fails w"
  by (cases "quota_faults w"; cases "tl (quota_faults w)") (auto simp: second_write_fails_def)

lemma durable_apply_op:
  "durable_all_or_nothing w \<Longrightarrow> \<not> second_write_fails w \<Longrightarrow>
   durable_all_or_nothing (apply_op op w)"
  by (cases op)
     (simp_all add: durable_setTokens durable_clearTokens,
      simp add: durable_all_or_nothing_def durable_initialize)

lemma quota_faults_apply_op:
  "True \<notin> set (quota_faults w) \<Longrightarrow> True \<notin> set (quota_faults (apply_op op w))"
  by (cases op) (simp_all add: quota_faults_initialize quota_faults_setTokens durable_clearTokens)

lemma durable_fold:
  "durable_all_or_nothing w \<Longrightarrow> True \<notin> set (quota_faults w) \<Longrightarrow>
   durable_all_or_nothing (fold apply_op ops w)"
proof (induction ops arbitrary: w)
  case Nil
  then show ?case by simp
next
  case (Cons op ops)
  have "durable_all_or_nothing (apply_op op w)"
    using Cons.prems by (simp add: durable_apply_op no_fault_no_second_write_failure)
  moreover have "True \<notin> set (quota_faults (apply_op op w))"
    using Cons.prems(2) by (rule quota_faults_apply_op)
  ultimately show ?case
    using Cons.IH by simp
qed

text \<open>
  C8. The pair the store holds in memory, the one \<open>getAccessToken\<close> and
  \<open>getRefreshToken\<close> show, is complete or absent after every sequence of
  \<open>initialize\<close>, \<open>setTokens\<close> and \<open>clearTokens\<close> on a new store, and each of the
  three operations keeps it so, for every content of storage, half a pair included, and
  for every failure of storage. The pair that the exported \<^verbatim>\<open>getStoredTokens\<close> reads
  from storage is kept complete or absent by each operation too, unless the second write
  of a \<open>setTokens\<close> fails after its first has succeeded; so it is complete or absent
  after every sequence of operations in which no write fails for quota.
\<close>

theorem credential_pair_all_or_nothing:
  "all_or_nothing (apply_ops ops (new_TokenManager w)) \<and>
   (all_or_nothing w \<longrightarrow> all_or_nothing (apply_op op w)) \<and>
   (durable_all_or_nothing w \<and> \<not> second_write_fails w \<longrightarrow>
      durable_all_or_nothing (apply_op op w)) \<and>
   (durable_all_or_nothing w \<and> True \<notin> set (quota_faults w) \<longrightarrow>
      durable_all_or_nothing (apply_ops ops w))"
proof -
  have "all_or_nothing (new_TokenManager w)"
    by (simp add: all_or_nothing_def new_TokenManager_def getAccessToken_def getRefreshToken_def)
  then show ?thesis
    by (simp add: apply_ops_def all_or_nothing_fold all_or_nothing_apply_op durable_apply_op
          durable_fold)
qed

theorem credential_pair_all_or_nothing_witness:
  "all_or_nothing stored_page \<and> durable_all_or_nothing stored_page \<and>
   \<not> second_write_fails stored_page \<and> True \<notin> set (quota_faults stored_page) \<and>
   all_or_nothing
     (apply_ops [Initialize, SetTokens ''A2'' ''R2'', ClearTokens] (new_TokenManager stored_page)) \<and>
   all_or_nothing (apply_op (SetTokens ''A2'' ''R2'') stored_page) \<and>
   durable_all_or_nothing (apply_op (SetTokens ''A2'' ''R2'') stored_page) \<and>
   getStoredTokens_export (apply_op (SetTokens ''A2'' ''R2'') stored_page) = (Some ''A2'', Some ''R2'') \<and>
   durable_all_or_nothing (apply_ops [Initialize, SetTokens ''A2'' ''R2'', ClearTokens] stored_page)"
proof -
  have h: "all_or_nothing stored_page" "durable_all_or_nothing stored_page"
      "\<not> second_write_fails stored_page" "True \<notin> set (quota_faults stored_page)"
    by (simp_all add: all_or_nothing_def durable_all_or_nothing_def second_write_fails_def
          getStoredTokens_export_def getItem_def getAccessToken_def getRefreshToken_def
          stored_page_def page_def)
  have e: "getStoredTokens_export (apply_op (SetTokens ''A2'' ''R2'') stored_page) =
             (Some ''A2'', Some ''R2'')"
    by (simp add: getStoredTokens_export_def getItem_def setTokens_def setItem_def
          stored_page_def page_def Let_def)
  show ?thesis
    using credential_pair_all_or_nothing
            [of "[Initialize, SetTokens ''A2'' ''R2'', ClearTokens]" stored_page
                "SetTokens ''A2'' ''R2''"] h e
    by simp
qed

text \<open>
  On a page whose storage is one write short of its quota, \<open>setTokens\<close> leaves half
  a pair in storage, and the exported \<^verbatim>\<open>getStoredTokens\<close> shows it. The pair in memory
  is complete, and the store of the next page load does not load the half pair.
\<close>

theorem half_pair_in_storage:
  "durable_all_or_nothing nearly_full_page \<and>
   getStoredTokens_export (apply_op (SetTokens ''A1'' ''R1'') nearly_full_page) = (Some ''A1'', None) \<and>
   \<not> durable_all_or_nothing (apply_op (SetTokens ''A1'' ''R1'') nearly_full_page) \<and>
   getAccessToken (apply_op (SetTokens ''A1'' ''R1'') nearly_full_page) = Some ''A1'' \<and>
   getRefreshToken (apply_op (SetTokens ''A1'' ''R1'') nearly_full_page) = Some ''R1'' \<and>
   getAccessToken
     (initialize (new_TokenManager (apply_op (SetTokens ''A1'' ''R1'') nearly_full_page))) = None"
  by (simp add: durable_all_or_nothing_def getStoredTokens_export_def setTokens_def setItem_def
        getItem_def warn_def nearly_full_page_def page_def getAccessToken_def getRefreshToken_def
        new_TokenManager_def initialize_def doInitialize_def getStoredTokens_def Let_def)

section \<open>Frame lemmas\<close>

text \<open>What the operations of the store and the navigation leave unchanged.\<close>

lemma setTokens_frame:
  "accessToken (setTokens a r w) = Some a"
  "refreshToken (setTokens a r w) = Some r"
  "isRefreshing (setTokens a r w) = isRefreshing w"
  "failedQueue (setTokens a r w) = failedQueue w"
  "microtasks (setTokens a r w) = microtasks w"
  "refreshWaiters (setTokens a r w) = refreshWaiters w"
  "timers (setTokens a r w) = timers w"
  "wire (setTokens a r w) = wire w"
  "client_calls (setTokens a r w) = client_calls w"
  "outcomes (setTokens a r w) = outcomes w"
  "nav_log (setTokens a r w) = nav_log w"
  "navigateToLogin_calls (setTokens a r w) = navigateToLogin_calls w"
  "navigateFunction (setTokens a r w) = navigateFunction w"
  "unauthorizedRedirect (setTokens a r w) = unauthorizedRedirect w"
  "has_window (setTokens a r w) = has_window w"
  "storage_disabled (setTokens a r w) = storage_disabled w"
  "isInitialized (setTokens a r w) = isInitialized w"
  by (simp_all add: setTokens_def setItem_def warn_def Let_def split: list.splits)

lemma clearTokens_frame:
  "accessToken (clearTokens w) = None"
  "refreshToken (clearTokens w) = None"
  "isRefreshing (clearTokens w) = isRefreshing w"
  "failedQueue (clearTokens w) = failedQueue w"
  "microtasks (clearTokens w) = microtasks w"
  "refreshWaiters (clearTokens w) = refreshWaiters w"
  "timers (clearTokens w) = timers w"
  "wire (clearTokens w) = wire w"
  "client_calls (clearTokens w) = client_calls w"
  "outcomes (clearTokens w) = outcomes w"
  "nav_log (clearTokens w) = nav_log w"
  "navigateToLogin_calls (clearTokens w) = navigateToLogin_calls w"
  "navigateFunction (clearTokens w) = navigateFunction w"
  "unauthorizedRedirect (clearTokens w) = unauthorizedRedirect w"
  "has_window (clearTokens w) = has_window w"
  "storage_disabled (clearTokens w) = storage_disabled w"
  "isInitialized (clearTokens w) = isInitialized w"
  by (simp_all add: clearTokens_def removeItem_def warn_def Let_def)

lemma clearTokens_durable: "getStoredTokens_export (clearTokens w) = (None, None)"
  by (simp add: getStoredTokens_export_def clearTokens_def removeItem_def getItem_def warn_def Let_def)

lemma navigateToLogin_frame:
  "accessToken (navigateToLogin w) = accessToken w"
  "refreshToken (navigateToLogin w) = refreshToken w"
  "isRefreshing (navigateToLogin w) = isRefreshing w"
  "failedQueue (navigateToLogin w) = failedQueue w"
  "microtasks (navigateToLogin w) = microtasks w"
  "refreshWaiters (navigateToLogin w) = refreshWaiters w"
  "timers (navigateToLogin w) = timers w"
  "wire (navigateToLogin w) = wire w"
  "client_calls (navigateToLogin w) = client_calls w"
  "outcomes (navigateToLogin w) = outcomes w"
  "navigateToLogin_calls (navigateToLogin w) = Suc (navigateToLogin_calls w)"
  "has_window (navigateToLogin w) = has_window w"
  "storage_disabled (navigateToLogin w) = storage_disabled w"
  "isInitialized (navigateToLogin w) = isInitialized w"
  "ls_items (navigateToLogin w) = ls_items w"
  "nav_log (navigateToLogin w) =
     (if navigateFunction w then nav_log w @ [RouterNav (unauthorizedRedirect w)]
      else if has_window w then nav_log w @ [LocationHref (unauthorizedRedirect w)]
      else nav_log w)"
  by (simp_all add: navigateToLogin_def navigateTo_def)

section \<open>Emptying the microtask queue\<close>

lemma drain_empty: "microtasks w = [] \<Longrightarrow> drain w = w"
  by simp

lemma drain_step:
  "microtasks w = j # js \<Longrightarrow> drain w = drain (run_job j (w\<lparr>microtasks := js\<rparr>))"
  by simp

declare drain.simps [simp del]

lemma initialize_ready: "store_ready w \<Longrightarrow> initialize w = w"
  by (auto simp: store_ready_def initialize_def)

text \<open>
  The queue is emptied in three rounds: the \<^verbatim>\<open>.then\<close> handlers of the queued entries
  call the client, the request interceptors of all calls start, and they resume and send.
  Each round keeps the order of the one before.
\<close>

lemma drain_resume:
  "microtasks w = map (\<lambda>(c, r). RequestInterceptorResume c r) crs \<Longrightarrow>
   drain w = w\<lparr>microtasks := [],
               wire := wire w @ map (\<lambda>(c, r). ClientSend c (with_bearer (accessToken w) r)) crs\<rparr>"
proof (induction crs arbitrary: w)
  case Nil
  then show ?case by (simp add: drain_empty)
next
  case (Cons cr crs)
  obtain c r where cr: "cr = (c, r)" by (cases cr)
  let ?w1 = "run_job (RequestInterceptorResume c r) (w\<lparr>microtasks := map (\<lambda>(c, r). RequestInterceptorResume c r) crs\<rparr>)"
  have d: "drain w = drain ?w1"
    using Cons.prems by (simp add: drain_step cr)
  have m: "microtasks ?w1 = map (\<lambda>(c, r). RequestInterceptorResume c r) crs"
    by simp
  show ?case
    unfolding d Cons.IH [OF m] by (simp add: cr getAccessToken_def)
qed

lemma drain_interceptors:
  "store_ready w \<Longrightarrow>
   microtasks w = map (\<lambda>(c, r). RequestInterceptor c r) crs @ map (\<lambda>(c, r). RequestInterceptorResume c r) ds \<Longrightarrow>
   drain w = w\<lparr>microtasks := [],
               wire := wire w @ map (\<lambda>(c, r). ClientSend c (with_bearer (accessToken w) r)) (ds @ crs)\<rparr>"
proof (induction crs arbitrary: w ds)
  case Nil
  then show ?case by (simp add: drain_resume)
next
  case (Cons cr crs)
  obtain c r where cr: "cr = (c, r)" by (cases cr)
  let ?js = "map (\<lambda>(c, r). RequestInterceptor c r) crs @ map (\<lambda>(c, r). RequestInterceptorResume c r) ds"
  let ?w1 = "run_job (RequestInterceptor c r) (w\<lparr>microtasks := ?js\<rparr>)"
  have rdy: "store_ready (w\<lparr>microtasks := ?js\<rparr>)"
    using Cons.prems(1) by (simp add: store_ready_def)
  have w1: "?w1 = w\<lparr>microtasks := ?js @ [RequestInterceptorResume c r]\<rparr>"
    using rdy by (simp add: initialize_ready [OF rdy] initialize_returns_promise_def store_ready_def)
  have d: "drain w = drain ?w1"
    using Cons.prems(2) by (simp add: drain_step cr)
  have m: "microtasks ?w1 = map (\<lambda>(c, r). RequestInterceptor c r) crs @ map (\<lambda>(c, r). RequestInterceptorResume c r) (ds @ [(c, r)])"
    unfolding w1 by simp
  have r1: "store_ready ?w1"
    unfolding w1 using Cons.prems(1) by (simp add: store_ready_def)
  show ?case
    unfolding d Cons.IH [OF r1 m] unfolding w1 by (simp add: cr)
qed

lemma drain_replay:
  "store_ready w \<Longrightarrow>
   microtasks w = map (\<lambda>(c, r). QueueResolved c r token) qs @ map (\<lambda>(c, r). RequestInterceptor c r) crs \<Longrightarrow>
   drain w = w\<lparr>microtasks := [],
               client_calls := client_calls w @ map (\<lambda>(c, r). (c, with_bearer token r)) qs,
               wire := wire w @ map (\<lambda>(c, r). ClientSend c (with_bearer (accessToken w) r))
                                   (crs @ map (\<lambda>(c, r). (c, with_bearer token r)) qs)\<rparr>"
proof (induction qs arbitrary: w crs)
  case Nil
  then show ?case using drain_interceptors [of w crs "[]"] by simp
next
  case (Cons q qs)
  obtain c r where q: "q = (c, r)" by (cases q)
  let ?js = "map (\<lambda>(c, r). QueueResolved c r token) qs @ map (\<lambda>(c, r). RequestInterceptor c r) crs"
  let ?w1 = "run_job (QueueResolved c r token) (w\<lparr>microtasks := ?js\<rparr>)"
  have w1: "?w1 = w\<lparr>microtasks := ?js @ [RequestInterceptor c (with_bearer token r)],
                     client_calls := client_calls w @ [(c, with_bearer token r)]\<rparr>"
    by (simp add: apiClient_def)
  have d: "drain w = drain ?w1"
    using Cons.prems(2) by (simp add: drain_step q)
  have m: "microtasks ?w1 = map (\<lambda>(c, r). QueueResolved c r token) qs @
             map (\<lambda>(c, r). RequestInterceptor c r) (crs @ [(c, with_bearer token r)])"
    unfolding w1 by simp
  have r1: "store_ready ?w1"
    unfolding w1 using Cons.prems(1) by (simp add: store_ready_def)
  show ?case
    unfolding d Cons.IH [OF r1 m] unfolding w1 by (simp add: q)
qed

lemma drain_rejected:
  "microtasks w = map (\<lambda>(c, r). QueueRejected c e) qs \<Longrightarrow>
   drain w = w\<lparr>microtasks := [], outcomes := outcomes w @ map (\<lambda>(c, r). (c, Rejected e)) qs\<rparr>"
proof (induction qs arbitrary: w)
  case Nil
  then show ?case by (simp add: drain_empty)
next
  case (Cons q qs)
  obtain c r where q: "q = (c, r)" by (cases q)
  let ?w1 = "run_job (QueueRejected c e) (w\<lparr>microtasks := map (\<lambda>(c, r). QueueRejected c e) qs\<rparr>)"
  have d: "drain w = drain ?w1"
    using Cons.prems by (simp add: drain_step q)
  have m: "microtasks ?w1 = map (\<lambda>(c, r). QueueRejected c e) qs"
    by (simp add: settle_def)
  show ?case
    unfolding d Cons.IH [OF m] by (simp add: q settle_def)
qed


text \<open>
  Once a request has gone through the client, the store needs no load any more
  (\<open>initPromise\<close> is only ever set by an \<open>initialize\<close> that has loaded).
\<close>

lemma initialize_cases:
  "initialize w = w \<or>
   (has_window w \<and> \<not> isInitialized w \<and> \<not> initPromise w \<and>
    isInitialized (initialize w) \<and> has_window (initialize w) \<and>
    microtasks (initialize w) = microtasks w)"
  by (simp add: initialize_def doInitialize_def getStoredTokens_def getItem_def warn_def Let_def)

lemma run_job_keeps_ready:
  assumes "isInitialized w \<or> \<not> initPromise w"
  shows "(isInitialized (run_job j w) \<or> \<not> initPromise (run_job j w)) \<and>
         (store_ready w \<longrightarrow> store_ready (run_job j w)) \<and>
         (\<exists>new. microtasks (run_job j w) = microtasks w @ new)"
proof (cases j)
  case (RequestInterceptor c r)
  then show ?thesis
    using assms initialize_cases [of w] by (auto simp: store_ready_def Let_def)
qed (use assms in \<open>simp_all add: apiClient_def settle_def store_ready_def\<close>)

lemma request_interceptor_makes_ready:
  "isInitialized w \<or> \<not> initPromise w \<Longrightarrow> store_ready (run_job (RequestInterceptor c r) w)"
  by (auto simp: store_ready_def initialize_def doInitialize_def getStoredTokens_def getItem_def
        warn_def Let_def initialize_returns_promise_def)

lemma drain_makes_ready:
  "isInitialized w \<or> \<not> initPromise w \<Longrightarrow>
   store_ready w \<or> (\<exists>c r. RequestInterceptor c r \<in> set (microtasks w)) \<Longrightarrow>
   store_ready (drain w)"
proof (induction w rule: drain.induct)
  case (1 w)
  show ?case
  proof (cases "microtasks w")
    case Nil
    then show ?thesis using "1.prems" by (simp add: drain_empty)
  next
    case (Cons j js)
    let ?w0 = "w\<lparr>microtasks := js\<rparr>"
    let ?w1 = "run_job j ?w0"
    have ok0: "isInitialized ?w0 \<or> \<not> initPromise ?w0"
      using "1.prems"(1) by simp
    note k = run_job_keeps_ready [OF ok0, of j]
    have "store_ready ?w1 \<or> (\<exists>c r. RequestInterceptor c r \<in> set (microtasks ?w1))"
    proof (cases "store_ready w")
      case True
      then have "store_ready ?w0" by (simp add: store_ready_def)
      then show ?thesis using k by blast
    next
      case False
      then obtain c r where in_q: "RequestInterceptor c r \<in> set (j # js)"
        using "1.prems"(2) Cons by auto
      show ?thesis
      proof (cases "j = RequestInterceptor c r")
        case True
        then show ?thesis using request_interceptor_makes_ready [OF ok0] by blast
      next
        case False
        then have "RequestInterceptor c r \<in> set js" using in_q by simp
        moreover obtain new where "microtasks ?w1 = js @ new" using k by auto
        ultimately show ?thesis by auto
      qed
    qed
    then have "store_ready (drain ?w1)"
      using "1.IH" [OF Cons] k by blast
    then show ?thesis
      using Cons by (simp add: drain_step)
  qed
qed

lemma store_ready_after_call:
  "isInitialized w \<or> \<not> initPromise w \<Longrightarrow> store_ready (step (Call c config) w)"
  unfolding step_def
  by (rule drain_makes_ready) (auto simp: apiClient_def)

section \<open>The refresh coordinator\<close>

lemma step_trigger:
  assumes "refreshToken w = Some rt" and "rt \<noteq> []" and "\<not> isRefreshing w"
      and "microtasks w = []" and "\<not> retry r"
  shows "step (Fail c (unauthorized r)) w =
           w\<lparr>isRefreshing := True,
             wire := wire w @ [RawPost ''/api/auth/refresh'' None rt],
             refreshWaiters := refreshWaiters w @ [(c, r\<lparr>retry := True\<rparr>, rt)]\<rparr>"
  using assms
  by (simp add: step_def onRejected_def unauthorized_def getRefreshToken_def drain_empty)

lemma step_queued:
  assumes "refreshToken w = Some rt" and "rt \<noteq> []" and "isRefreshing w"
      and "microtasks w = []" and "\<not> retry r"
  shows "step (Fail c (unauthorized r)) w = w\<lparr>failedQueue := failedQueue w @ [(c, r)]\<rparr>"
  using assms
  by (simp add: step_def onRejected_def unauthorized_def getRefreshToken_def drain_empty)

lemma run_queued:
  assumes "refreshToken w = Some rt" and "rt \<noteq> []" and "isRefreshing w"
      and "microtasks w = []" and "\<forall>(c, r) \<in> set crs. \<not> retry r"
  shows "run (map (\<lambda>(c, r). Fail c (unauthorized r)) crs) w = w\<lparr>failedQueue := failedQueue w @ crs\<rparr>"
  using assms
proof (induction crs arbitrary: w)
  case Nil
  then show ?case by (simp add: run_def)
next
  case (Cons cr crs)
  obtain c r where cr: "cr = (c, r)" by (cases cr)
  let ?w1 = "w\<lparr>failedQueue := failedQueue w @ [(c, r)]\<rparr>"
  have s: "step (Fail c (unauthorized r)) w = ?w1"
    using Cons.prems by (simp add: step_queued cr)
  have "run (map (\<lambda>(c, r). Fail c (unauthorized r)) crs) ?w1 = ?w1\<lparr>failedQueue := failedQueue ?w1 @ crs\<rparr>"
    using Cons.prems by (intro Cons.IH) simp_all
  then show ?case
    using s by (simp add: run_def cr)
qed

lemma isRefreshing_run_job: "isRefreshing (run_job j w) = isRefreshing w"
  by (cases j) (simp_all add: apiClient_def settle_def initialize_def doInitialize_def
        getStoredTokens_def getItem_def warn_def Let_def)

lemma isRefreshing_drain: "isRefreshing (drain w) = isRefreshing w"
proof (induction w rule: drain.induct)
  case (1 w)
  show ?case
  proof (cases "microtasks w")
    case Nil
    then show ?thesis by (simp add: drain_empty)
  next
    case (Cons j js)
    then show ?thesis
      using "1.IH" [OF Cons] by (simp add: drain_step isRefreshing_run_job)
  qed
qed

lemma refreshWaiters_run_job: "refreshWaiters (run_job j w) = refreshWaiters w"
  by (cases j) (simp_all add: apiClient_def settle_def initialize_def doInitialize_def
        getStoredTokens_def getItem_def warn_def Let_def)

lemma refreshWaiters_drain: "refreshWaiters (drain w) = refreshWaiters w"
proof (induction w rule: drain.induct)
  case (1 w)
  show ?case
  proof (cases "microtasks w")
    case Nil
    then show ?thesis by (simp add: drain_empty)
  next
    case (Cons j js)
    then show ?thesis
      using "1.IH" [OF Cons] by (simp add: drain_step refreshWaiters_run_job)
  qed
qed

lemma at_most_one_refresh_onRejected:
  "at_most_one_refresh w \<Longrightarrow> at_most_one_refresh (onRejected c error w)"
  by (auto simp: at_most_one_refresh_def onRejected_def settle_def getRefreshToken_def
        clearTokens_frame navigateToLogin_frame split: option.splits)

lemma at_most_one_refresh_refreshSettled:
  "at_most_one_refresh w \<Longrightarrow> at_most_one_refresh (refreshSettled res w)"
  by (cases res)
     (auto simp: at_most_one_refresh_def refreshSettled_def Let_def apiClient_def processQueue_def
        settle_def setTokens_frame clearTokens_frame navigateToLogin_frame split: list.splits)

lemma at_most_one_refresh_handle:
  "at_most_one_refresh w \<Longrightarrow> at_most_one_refresh (handle ev w)"
proof (cases ev)
  case (Fail c error)
  then show "at_most_one_refresh w \<Longrightarrow> ?thesis"
    by (simp add: at_most_one_refresh_onRejected)
next
  case (RefreshSettles res)
  then show "at_most_one_refresh w \<Longrightarrow> ?thesis"
    by (simp add: at_most_one_refresh_refreshSettled)
qed (auto simp: at_most_one_refresh_def apiClient_def onFulfilled_def settle_def timerFired_def
       setTokens_frame clearTokens_frame split: list.splits)

lemma at_most_one_refresh_step:
  "at_most_one_refresh w \<Longrightarrow> at_most_one_refresh (step ev w)"
  using at_most_one_refresh_handle [of w ev]
  by (simp add: at_most_one_refresh_def step_def isRefreshing_drain refreshWaiters_drain)

lemma at_most_one_refresh_run:
  "at_most_one_refresh w \<Longrightarrow> at_most_one_refresh (run evs w)"
  by (induction evs arbitrary: w) (simp_all add: run_def at_most_one_refresh_step)

lemma refreshSettled_flag:
  "refreshWaiters w = [x] \<Longrightarrow>
   \<not> isRefreshing (refreshSettled res w) \<and> refreshWaiters (refreshSettled res w) = []"
  by (cases x; cases res)
     (simp_all add: refreshSettled_def Let_def apiClient_def processQueue_def settle_def
        setTokens_frame clearTokens_frame navigateToLogin_frame)

text \<open>The scenario, evaluated.\<close>

lemmas eval_defs =
  run_def step_def drain_step drain_empty apiClient_def settle_def processQueue_def
  onRejected_def onFulfilled_def refreshSettled_def timerFired_def
  navigateToLogin_def navigateTo_def setTokens_def clearTokens_def setItem_def removeItem_def
  getItem_def getStoredTokens_def doInitialize_def initialize_def warn_def
  getAccessToken_def getRefreshToken_def unauthorized_def no_response_def bearer_def
  initialize_returns_promise_def page_def get_def sent_def Let_def

lemma scenario_dispatched:
  "run [ExportSetTokens ''A1'' ''R1'', Call 1 (get ''/x''), Call 2 (get ''/y''), Call 3 (get ''/z'')] page
     = dispatched_page"
  by (simp add: dispatched_page_def eval_defs)

lemma scenario_refreshing:
  "run [Fail 1 (unauthorized (sent ''/x'' ''A1'')), Fail 2 (unauthorized (sent ''/y'' ''A1'')),
        Fail 3 (unauthorized (sent ''/z'' ''A1''))] dispatched_page = refreshing_page"
  by (simp add: refreshing_page_def dispatched_page_def eval_defs)

text \<open>
  Three calls in one task on a page whose store has not been loaded: the first request
  interceptor is the one that loads, its \<^verbatim>\<open>initialize()\<close> returns a promise, and it
  resumes after the two others, so its request leaves last.
\<close>

lemma same_task_calls_on_new_page:
  "wire (drain (apiClient 3 (get ''/z'') (apiClient 2 (get ''/y'')
           (apiClient 1 (get ''/x'') (setTokens ''A1'' ''R1'' page))))) =
     [ClientSend 2 (sent ''/y'' ''A1''), ClientSend 3 (sent ''/z'' ''A1''),
      ClientSend 1 (sent ''/x'' ''A1'')]"
  by (simp add: eval_defs)

lemma refreshing_reached: "run (sign_in_and_call @ all_unauthorized) page = refreshing_page"
  using scenario_dispatched scenario_refreshing
  by (simp add: run_def sign_in_and_call_def all_unauthorized_def)

text \<open>
  C1. The pair stored has a refresh token and no refresh is in flight. Two or more
  requests that have not been retried after a refresh receive a 401, one after the
  other, before any refresh settles. Then exactly one refresh call is sent: the first
  failure sets \<open>isRefreshing\<close> and sends it, every later failure is appended to
  \<open>failedQueue\<close> in its order of arrival and changes nothing else, and whatever the
  refresh call settles with, \<open>isRefreshing\<close> is false afterwards. Moreover, whatever
  happens from there on, to requests of any kind, at most one refresh call is outstanding
  at any time.
\<close>

theorem single_refresh_for_concurrent_failures:
  assumes "refreshToken w = Some rt" and "rt \<noteq> []"
      and "\<not> isRefreshing w" and "failedQueue w = []" and "refreshWaiters w = []"
      and "microtasks w = []"
      and "2 \<le> length crs" and "\<forall>(c, r) \<in> set crs. \<not> retry r"
  shows "run (map (\<lambda>(c, r). Fail c (unauthorized r)) crs) w =
           w\<lparr>isRefreshing := True,
             wire := wire w @ [RawPost ''/api/auth/refresh'' None rt],
             refreshWaiters := [(fst (hd crs), (snd (hd crs))\<lparr>retry := True\<rparr>, rt)],
             failedQueue := tl crs\<rparr> \<and>
         refresh_calls (run (map (\<lambda>(c, r). Fail c (unauthorized r)) crs) w) =
           refresh_calls w @ [RawPost ''/api/auth/refresh'' None rt] \<and>
         (\<forall>res. \<not> isRefreshing (step (RefreshSettles res)
                    (run (map (\<lambda>(c, r). Fail c (unauthorized r)) crs) w))) \<and>
         (\<forall>evs. length (refreshWaiters (run evs w)) \<le> 1)"
proof -
  obtain c r rest where crs: "crs = (c, r) # rest"
    using assms(7) by (cases crs) auto
  let ?w1 = "w\<lparr>isRefreshing := True,
               wire := wire w @ [RawPost ''/api/auth/refresh'' None rt],
               refreshWaiters := refreshWaiters w @ [(c, r\<lparr>retry := True\<rparr>, rt)]\<rparr>"
  let ?w' = "run (map (\<lambda>(c, r). Fail c (unauthorized r)) crs) w"
  have s1: "step (Fail c (unauthorized r)) w = ?w1"
    using assms crs by (intro step_trigger) simp_all
  have "run (map (\<lambda>(c, r). Fail c (unauthorized r)) rest) ?w1 = ?w1\<lparr>failedQueue := failedQueue ?w1 @ rest\<rparr>"
    using assms crs by (intro run_queued [where rt = rt]) simp_all
  then have w': "?w' = w\<lparr>isRefreshing := True,
             wire := wire w @ [RawPost ''/api/auth/refresh'' None rt],
             refreshWaiters := [(fst (hd crs), (snd (hd crs))\<lparr>retry := True\<rparr>, rt)],
             failedQueue := tl crs\<rparr>"
    using s1 assms(4,5) by (simp add: run_def crs)
  have calls: "refresh_calls ?w' = refresh_calls w @ [RawPost ''/api/auth/refresh'' None rt]"
    unfolding w' by (simp add: refresh_calls_def)
  have flag: "\<not> isRefreshing (step (RefreshSettles res) ?w')" for res
    unfolding w' step_def
    by (simp add: isRefreshing_drain refreshSettled_flag)
  have "at_most_one_refresh w"
    using assms(3,5) by (simp add: at_most_one_refresh_def)
  then have one: "length (refreshWaiters (run evs w)) \<le> 1" for evs
    using at_most_one_refresh_run [of w evs] by (simp add: at_most_one_refresh_def)
  show ?thesis
    using w' calls flag one by blast
qed


theorem single_refresh_for_concurrent_failures_witness:
  "refreshToken dispatched_page = Some ''R1'' \<and> \<not> isRefreshing dispatched_page \<and>
   failedQueue dispatched_page = [] \<and> refreshWaiters dispatched_page = [] \<and>
   microtasks dispatched_page = [] \<and>
   \<not> retry (sent ''/x'' ''A1'') \<and> \<not> retry (sent ''/y'' ''A1'') \<and> \<not> retry (sent ''/z'' ''A1'') \<and>
   refresh_calls (run all_unauthorized dispatched_page) = [RawPost ''/api/auth/refresh'' None ''R1''] \<and>
   isRefreshing (run all_unauthorized dispatched_page) \<and>
   failedQueue (run all_unauthorized dispatched_page) = [(2, sent ''/y'' ''A1''), (3, sent ''/z'' ''A1'')] \<and>
   \<not> isRefreshing (step (RefreshSettles (RefreshOk ''A2'' ''R2'')) (run all_unauthorized dispatched_page)) \<and>
   \<not> isRefreshing (step (RefreshSettles (RefreshFailed (AxiosError None (Some 400))))
                    (run all_unauthorized dispatched_page)) \<and>
   length (refreshWaiters (run (all_unauthorized @ all_unauthorized) dispatched_page)) \<le> 1"
proof -
  let ?crs = "[(1, sent ''/x'' ''A1''), (2, sent ''/y'' ''A1''), (3, sent ''/z'' ''A1'')]"
  have h: "refreshToken dispatched_page = Some ''R1''" "''R1'' \<noteq> []" "\<not> isRefreshing dispatched_page"
      "failedQueue dispatched_page = []" "refreshWaiters dispatched_page = []"
      "microtasks dispatched_page = []" "2 \<le> length ?crs"
    by (simp_all add: dispatched_page_def page_def)
  have f: "\<forall>(c, r) \<in> set ?crs. \<not> retry r"
    by (simp add: sent_def get_def)
  have e: "map (\<lambda>(c, r). Fail c (unauthorized r)) ?crs = all_unauthorized"
    by (simp add: all_unauthorized_def)
  have r: "refresh_calls dispatched_page = []"
    by (simp add: refresh_calls_def dispatched_page_def page_def)
  note t = single_refresh_for_concurrent_failures [OF h f, unfolded e]
  note t1 = t [THEN conjunct1]
   and t2 = t [THEN conjunct2, THEN conjunct1, unfolded r append_Nil]
   and t3 = t [THEN conjunct2, THEN conjunct2, THEN conjunct1, rule_format]
   and t4 = t [THEN conjunct2, THEN conjunct2, THEN conjunct2, rule_format,
               of "all_unauthorized @ all_unauthorized"]
  have i: "isRefreshing (run all_unauthorized dispatched_page)"
    and q: "failedQueue (run all_unauthorized dispatched_page) =
              [(2, sent ''/y'' ''A1''), (3, sent ''/z'' ''A1'')]"
    unfolding t1 by simp_all
  show ?thesis
    using h f t2 t3 t4 i q by simp
qed

lemma refresh_success_state:
  assumes "refreshWaiters w = [(c0, r0, rt)]" and "microtasks w = []" and "store_ready w"
  shows "step (RefreshSettles (RefreshOk a2 r2)) w =
           (setTokens a2 r2 (w\<lparr>refreshWaiters := []\<rparr>))
             \<lparr>microtasks := [], failedQueue := [], isRefreshing := False,
              client_calls := client_calls w @
                (c0, if has_headers r0 then r0\<lparr>authorization := Some (bearer a2)\<rparr> else r0) #
                map (\<lambda>(c, r). (c, with_bearer (Some a2) r)) (failedQueue w),
              wire := wire w @
                map (\<lambda>(c, r). ClientSend c (with_bearer (Some a2) r))
                  ((c0, if has_headers r0 then r0\<lparr>authorization := Some (bearer a2)\<rparr> else r0) #
                   map (\<lambda>(c, r). (c, with_bearer (Some a2) r)) (failedQueue w))\<rparr>"
proof -
  let ?retried = "if has_headers r0 then r0\<lparr>authorization := Some (bearer a2)\<rparr> else r0"
  let ?w1 = "setTokens a2 r2 (w\<lparr>refreshWaiters := []\<rparr>)"
  let ?wa = "?w1\<lparr>microtasks := map (\<lambda>(c, r). QueueResolved c r (Some a2)) (failedQueue w) @
                               map (\<lambda>(c, r). RequestInterceptor c r) [(c0, ?retried)],
                failedQueue := [],
                client_calls := client_calls w @ [(c0, ?retried)],
                isRefreshing := False\<rparr>"
  have h: "handle (RefreshSettles (RefreshOk a2 r2)) w = ?wa"
    using assms(1,2)
    by (simp add: refreshSettled_def processQueue_def apiClient_def Let_def setTokens_frame)
  have rdy: "store_ready ?wa"
    using assms(3) by (simp add: store_ready_def setTokens_frame)
  have m: "microtasks ?wa = map (\<lambda>(c, r). QueueResolved c r (Some a2)) (failedQueue w) @
                               map (\<lambda>(c, r). RequestInterceptor c r) [(c0, ?retried)]"
    by simp
  show ?thesis
    unfolding step_def h drain_replay [OF rdy m]
    by (simp add: setTokens_frame)
qed

lemma run_append: "run (xs @ ys) w = run ys (run xs w)"
  by (simp add: run_def)

lemma run_single: "run [e] w = step e w"
  by (simp add: run_def)

lemma dispatched_reached: "run sign_in_and_call page = dispatched_page"
  using scenario_dispatched by (simp add: sign_in_and_call_def)

lemma refreshing_from_dispatched: "run all_unauthorized dispatched_page = refreshing_page"
  using scenario_refreshing by (simp add: all_unauthorized_def)








text \<open>
  C5. On the success of the refresh (under the conditions of C2) the triggering request
  is called again first, in the continuation of the refresh itself, before any
  \<^verbatim>\<open>.then\<close> handler of a queued entry runs; the queued entries follow, in the order
  in which they entered the queue. The requests leave in the same order.
\<close>

theorem replay_order_trigger_first:
  assumes "refreshWaiters w = [(c0, r0, rt)]" and "microtasks w = []" and "store_ready w"
      and "a2 \<noteq> []" and "\<forall>(c, r) \<in> set ((c0, r0) # failedQueue w). has_headers r"
  shows "map fst (drop (length (client_calls w)) (client_calls (step (RefreshSettles (RefreshOk a2 r2)) w))) =
           c0 # map fst (failedQueue w) \<and>
         drop (length (wire w)) (wire (step (RefreshSettles (RefreshOk a2 r2)) w)) =
           ClientSend c0 (r0\<lparr>authorization := Some (bearer a2)\<rparr>) #
           map (\<lambda>(c, r). ClientSend c (r\<lparr>authorization := Some (bearer a2)\<rparr>)) (failedQueue w)"
proof -
  note st = refresh_success_state [OF assms(1-3), of a2 r2]
  have q: "map (\<lambda>(c, r). (c, with_bearer (Some a2) r)) (failedQueue w) =
           map (\<lambda>(c, r). (c, r\<lparr>authorization := Some (bearer a2)\<rparr>)) (failedQueue w)"
    using assms(4,5) by auto
  have r0: "has_headers r0"
    using assms(5) by simp
  show ?thesis
    unfolding st q using assms(4) r0 by (simp add: comp_def case_prod_beta)
qed


theorem replay_order_trigger_first_witness:
  "refreshWaiters refreshing_page = [(1, (sent ''/x'' ''A1'')\<lparr>retry := True\<rparr>, ''R1'')] \<and>
   failedQueue refreshing_page = [(2, sent ''/y'' ''A1''), (3, sent ''/z'' ''A1'')] \<and>
   microtasks refreshing_page = [] \<and> store_ready refreshing_page \<and>
   has_headers (sent ''/x'' ''A1'') \<and> has_headers (sent ''/y'' ''A1'') \<and> has_headers (sent ''/z'' ''A1'') \<and>
   map fst (drop (length (client_calls refreshing_page))
              (client_calls (step (RefreshSettles (RefreshOk ''A2'' ''R2'')) refreshing_page))) = [1, 2, 3] \<and>
   drop (length (wire refreshing_page))
        (wire (step (RefreshSettles (RefreshOk ''A2'' ''R2'')) refreshing_page)) =
     [ClientSend 1 ((sent ''/x'' ''A2'')\<lparr>retry := True\<rparr>), ClientSend 2 (sent ''/y'' ''A2''),
      ClientSend 3 (sent ''/z'' ''A2'')]"
proof -
  have h: "refreshWaiters refreshing_page = [(1, (sent ''/x'' ''A1'')\<lparr>retry := True\<rparr>, ''R1'')]"
      "microtasks refreshing_page = []" "store_ready refreshing_page" "''A2'' \<noteq> []"
    by (simp_all add: refreshing_page_def dispatched_page_def page_def store_ready_def)
  have fq: "failedQueue refreshing_page = [(2, sent ''/y'' ''A1''), (3, sent ''/z'' ''A1'')]"
    by (simp add: refreshing_page_def)
  have hh: "has_headers (sent ''/x'' ''A1'')" "has_headers (sent ''/y'' ''A1'')"
      "has_headers (sent ''/z'' ''A1'')"
    by (simp_all add: sent_def get_def)
  have b: "\<forall>(c, r) \<in> set ((1, (sent ''/x'' ''A1'')\<lparr>retry := True\<rparr>) # failedQueue refreshing_page).
             has_headers r"
    using hh by (simp add: fq)
  have s: "(sent u ''A1'')\<lparr>authorization := Some (bearer ''A2'')\<rparr> = sent u ''A2''" for u
    by (simp add: sent_def)
  note t = replay_order_trigger_first [OF h b, of "''R2''"]
  have 1: "map fst (drop (length (client_calls refreshing_page))
              (client_calls (step (RefreshSettles (RefreshOk ''A2'' ''R2'')) refreshing_page))) = [1, 2, 3]"
    using t [THEN conjunct1] by (simp add: fq)
  have 2: "drop (length (wire refreshing_page))
        (wire (step (RefreshSettles (RefreshOk ''A2'' ''R2'')) refreshing_page)) =
     [ClientSend 1 ((sent ''/x'' ''A2'')\<lparr>retry := True\<rparr>), ClientSend 2 (sent ''/y'' ''A2''),
      ClientSend 3 (sent ''/z'' ''A2'')]"
    using t [THEN conjunct2] by (simp add: fq s sent_def get_def)
  show ?thesis
    using h fq hh 1 2 by simp
qed

text \<open>
  In the scenario the request of chain 1 triggered the refresh and those of chains 2
  and 3 were queued behind it; after the refresh succeeded, chain 1 was called again and
  sent ahead of chain 2.
\<close>

theorem trigger_initiated_ahead_of_queue:
  "map fst (refreshWaiters (run (sign_in_and_call @ all_unauthorized) page)) = [1] \<and>
   map fst (failedQueue (run (sign_in_and_call @ all_unauthorized) page)) = [2, 3] \<and>
   initiated_ahead 1 2
     (map fst (drop 3 (client_calls
        (run (sign_in_and_call @ all_unauthorized @ [RefreshSettles (RefreshOk ''A2'' ''R2'')]) page)))) \<and>
   drop 4 (wire (run (sign_in_and_call @ all_unauthorized @ [RefreshSettles (RefreshOk ''A2'' ''R2'')]) page)) =
     [ClientSend 1 ((sent ''/x'' ''A2'')\<lparr>retry := True\<rparr>), ClientSend 2 (sent ''/y'' ''A2''),
      ClientSend 3 (sent ''/z'' ''A2'')]"
  unfolding run_append dispatched_reached refreshing_from_dispatched run_single
  by (simp add: initiated_ahead_def refreshing_page_def dispatched_page_def eval_defs)

lemma getStoredTokens_export_cong:
  "has_window a = has_window b \<Longrightarrow> storage_disabled a = storage_disabled b \<Longrightarrow>
   ls_items a = ls_items b \<Longrightarrow> getStoredTokens_export a = getStoredTokens_export b"
  by (simp add: getStoredTokens_export_def getItem_def)

lemma refresh_failure_state:
  assumes "refreshWaiters w = [(c0, r0, rt)]" and "microtasks w = []"
  shows "step (RefreshSettles (RefreshFailed e)) w =
           (navigateToLogin (clearTokens (w\<lparr>refreshWaiters := [],
               microtasks := map (\<lambda>(c, r). QueueRejected c
                   (if instanceof_Error e then e else OtherError ''Token refresh failed''))
                 (failedQueue w),
               failedQueue := []\<rparr>)))
             \<lparr>microtasks := [], isRefreshing := False,
              outcomes := outcomes w @ (c0, Rejected e) #
                map (\<lambda>(c, r). (c, Rejected (if instanceof_Error e then e
                                              else OtherError ''Token refresh failed'')))
                    (failedQueue w)\<rparr>"
proof -
  let ?e = "if instanceof_Error e then e else OtherError ''Token refresh failed''"
  let ?w3 = "navigateToLogin (clearTokens (w\<lparr>refreshWaiters := [],
               microtasks := map (\<lambda>(c, r). QueueRejected c ?e) (failedQueue w),
               failedQueue := []\<rparr>))"
  let ?wa = "?w3\<lparr>outcomes := outcomes w @ [(c0, Rejected e)], isRefreshing := False\<rparr>"
  have h: "handle (RefreshSettles (RefreshFailed e)) w = ?wa"
    using assms
    by (simp add: refreshSettled_def processQueue_def settle_def Let_def
          clearTokens_frame navigateToLogin_frame)
  have m: "microtasks ?wa = map (\<lambda>(c, r). QueueRejected c ?e) (failedQueue w)"
    by (simp add: clearTokens_frame navigateToLogin_frame)
  show ?thesis
    unfolding step_def h drain_rejected [OF m]
    by (simp add: clearTokens_frame navigateToLogin_frame)
qed

text \<open>
  C3. A refresh is in flight for the request of chain \<open>c0\<close> and the refresh call
  fails, with an error response or with none. Then the caller of the triggering request
  and the caller of every queued request are rejected with that error; the store shows
  no credential, in memory and in durable storage; the queue is empty and
  \<open>isRefreshing\<close> is false; \<open>navigateToLogin\<close> has been called exactly once; and
  nothing has been sent.
\<close>

theorem refresh_failure_rejects_all:
  assumes "refreshWaiters w = [(c0, r0, rt)]" and "microtasks w = []"
  shows "outcomes (step (RefreshSettles (RefreshFailed (AxiosError cfg st))) w) =
           outcomes w @ (c0, Rejected (AxiosError cfg st)) #
             map (\<lambda>(c, r). (c, Rejected (AxiosError cfg st))) (failedQueue w) \<and>
         getAccessToken (step (RefreshSettles (RefreshFailed (AxiosError cfg st))) w) = None \<and>
         getRefreshToken (step (RefreshSettles (RefreshFailed (AxiosError cfg st))) w) = None \<and>
         getStoredTokens_export (step (RefreshSettles (RefreshFailed (AxiosError cfg st))) w) = (None, None) \<and>
         failedQueue (step (RefreshSettles (RefreshFailed (AxiosError cfg st))) w) = [] \<and>
         \<not> isRefreshing (step (RefreshSettles (RefreshFailed (AxiosError cfg st))) w) \<and>
         navigateToLogin_calls (step (RefreshSettles (RefreshFailed (AxiosError cfg st))) w) =
           Suc (navigateToLogin_calls w) \<and>
         wire (step (RefreshSettles (RefreshFailed (AxiosError cfg st))) w) = wire w"
proof -
  let ?w' = "step (RefreshSettles (RefreshFailed (AxiosError cfg st))) w"
  note st = refresh_failure_state [OF assms, of "AxiosError cfg st"]
  have "getStoredTokens_export ?w' =
          getStoredTokens_export (clearTokens (w\<lparr>refreshWaiters := [],
               microtasks := map (\<lambda>(c, r). QueueRejected c (AxiosError cfg st)) (failedQueue w),
               failedQueue := []\<rparr>))"
    unfolding st
    by (rule getStoredTokens_export_cong) (simp_all add: navigateToLogin_frame)
  then have d: "getStoredTokens_export ?w' = (None, None)"
    by (simp add: clearTokens_durable)
  have "outcomes ?w' = outcomes w @ (c0, Rejected (AxiosError cfg st)) #
             map (\<lambda>(c, r). (c, Rejected (AxiosError cfg st))) (failedQueue w)"
       "getAccessToken ?w' = None" "getRefreshToken ?w' = None" "failedQueue ?w' = []"
       "\<not> isRefreshing ?w'" "navigateToLogin_calls ?w' = Suc (navigateToLogin_calls w)"
       "wire ?w' = wire w"
    unfolding st
    by (simp_all add: getAccessToken_def getRefreshToken_def clearTokens_frame navigateToLogin_frame)
  with d show ?thesis
    by blast
qed

theorem refresh_failure_rejects_all_witness:
  "refreshWaiters refreshing_page = [(1, (sent ''/x'' ''A1'')\<lparr>retry := True\<rparr>, ''R1'')] \<and>
   microtasks refreshing_page = [] \<and>
   outcomes (step (RefreshSettles (RefreshFailed (AxiosError None (Some 400)))) refreshing_page) =
     [(1, Rejected (AxiosError None (Some 400))), (2, Rejected (AxiosError None (Some 400))),
      (3, Rejected (AxiosError None (Some 400)))] \<and>
   getAccessToken (step (RefreshSettles (RefreshFailed (AxiosError None (Some 400)))) refreshing_page) = None \<and>
   getRefreshToken (step (RefreshSettles (RefreshFailed (AxiosError None (Some 400)))) refreshing_page) = None \<and>
   getStoredTokens_export (step (RefreshSettles (RefreshFailed (AxiosError None (Some 400)))) refreshing_page) =
     (None, None) \<and>
   getStoredTokens_export refreshing_page = (Some ''A1'', Some ''R1'') \<and>
   navigateToLogin_calls (step (RefreshSettles (RefreshFailed (AxiosError None (Some 400)))) refreshing_page) = 1"
proof -
  have h: "refreshWaiters refreshing_page = [(1, (sent ''/x'' ''A1'')\<lparr>retry := True\<rparr>, ''R1'')]"
      "microtasks refreshing_page = []"
    by (simp_all add: refreshing_page_def dispatched_page_def page_def)
  have fq: "failedQueue refreshing_page = [(2, sent ''/y'' ''A1''), (3, sent ''/z'' ''A1'')]"
    by (simp add: refreshing_page_def)
  have o: "outcomes refreshing_page = []" "navigateToLogin_calls refreshing_page = 0"
    by (simp_all add: refreshing_page_def dispatched_page_def page_def)
  have d: "getStoredTokens_export refreshing_page = (Some ''A1'', Some ''R1'')"
    by (simp add: getStoredTokens_export_def getItem_def refreshing_page_def dispatched_page_def page_def)
  note t = refresh_failure_rejects_all [OF h, of None "Some 400"]
  show ?thesis
    using t h d by (simp add: fq o)
qed

text \<open>
  C10. The refresh call is a raw \<^verbatim>\<open>axios.post\<close>: when a 401 of a request triggers it,
  what is sent is that post alone, with no \<^verbatim>\<open>Authorization\<close> header, and the client
  is not called. When the refresh call then fails, with whatever error (a 401 and a
  failure without response included), its failure is handled by the continuation of the
  refresh: the caller is rejected with it, nothing more is sent, no further refresh is
  in flight, no timer of the transport retry is set, and \<open>isRefreshing\<close> is false.
\<close>

theorem refresh_bypasses_interceptors:
  assumes "refreshToken w = Some rt" and "rt \<noteq> []" and "\<not> isRefreshing w"
      and "refreshWaiters w = []" and "microtasks w = []" and "\<not> retry r"
  shows "wire (step (Fail c (unauthorized r)) w) = wire w @ [RawPost ''/api/auth/refresh'' None rt] \<and>
         client_calls (step (Fail c (unauthorized r)) w) = client_calls w \<and>
         (\<forall>e. wire (step (RefreshSettles (RefreshFailed e)) (step (Fail c (unauthorized r)) w)) =
                 wire (step (Fail c (unauthorized r)) w) \<and>
               client_calls (step (RefreshSettles (RefreshFailed e)) (step (Fail c (unauthorized r)) w)) =
                 client_calls w \<and>
               timers (step (RefreshSettles (RefreshFailed e)) (step (Fail c (unauthorized r)) w)) =
                 timers w \<and>
               refreshWaiters (step (RefreshSettles (RefreshFailed e)) (step (Fail c (unauthorized r)) w)) = [] \<and>
               \<not> isRefreshing (step (RefreshSettles (RefreshFailed e)) (step (Fail c (unauthorized r)) w)) \<and>
               (c, Rejected e) \<in> set (outcomes (step (RefreshSettles (RefreshFailed e))
                                          (step (Fail c (unauthorized r)) w))))"
proof -
  let ?w1 = "w\<lparr>isRefreshing := True,
               wire := wire w @ [RawPost ''/api/auth/refresh'' None rt],
               refreshWaiters := refreshWaiters w @ [(c, r\<lparr>retry := True\<rparr>, rt)]\<rparr>"
  have s1: "step (Fail c (unauthorized r)) w = ?w1"
    using assms by (intro step_trigger) simp_all
  have w: "refreshWaiters ?w1 = [(c, r\<lparr>retry := True\<rparr>, rt)]" "microtasks ?w1 = []"
    using assms(4,5) by simp_all
  note st = refresh_failure_state [OF w]
  show ?thesis
    unfolding s1 st
    by (simp add: clearTokens_frame navigateToLogin_frame)
qed

theorem refresh_bypasses_interceptors_witness:
  "refreshToken dispatched_page = Some ''R1'' \<and> accessToken dispatched_page = Some ''A1'' \<and>
   \<not> isRefreshing dispatched_page \<and> refreshWaiters dispatched_page = [] \<and>
   microtasks dispatched_page = [] \<and> \<not> retry (sent ''/x'' ''A1'') \<and>
   wire (step (Fail 1 (unauthorized (sent ''/x'' ''A1''))) dispatched_page) =
     wire dispatched_page @ [RawPost ''/api/auth/refresh'' None ''R1''] \<and>
   wire (step (RefreshSettles (RefreshFailed (AxiosError None (Some 401))))
           (step (Fail 1 (unauthorized (sent ''/x'' ''A1''))) dispatched_page)) =
     wire dispatched_page @ [RawPost ''/api/auth/refresh'' None ''R1''] \<and>
   refreshWaiters (step (RefreshSettles (RefreshFailed (AxiosError None (Some 401))))
           (step (Fail 1 (unauthorized (sent ''/x'' ''A1''))) dispatched_page)) = [] \<and>
   \<not> isRefreshing (step (RefreshSettles (RefreshFailed (AxiosError None (Some 401))))
           (step (Fail 1 (unauthorized (sent ''/x'' ''A1''))) dispatched_page))"
proof -
  have h: "refreshToken dispatched_page = Some ''R1''" "''R1'' \<noteq> []" "\<not> isRefreshing dispatched_page"
      "refreshWaiters dispatched_page = []" "microtasks dispatched_page = []"
      "\<not> retry (sent ''/x'' ''A1'')"
    by (simp_all add: dispatched_page_def page_def sent_def get_def)
  have a: "accessToken dispatched_page = Some ''A1''"
    by (simp add: dispatched_page_def)
  note t = refresh_bypasses_interceptors [OF h, of 1]
  note t1 = t [THEN conjunct1]
  note t3 = t [THEN conjunct2, THEN conjunct2, rule_format, of "AxiosError None (Some 401)"]
  show ?thesis
    using h a t1 t3 by simp
qed

section \<open>The failure interceptor\<close>

text \<open>
  C4. In the scenario, after the refresh has succeeded, the retried request of chain 1,
  which triggered the refresh, receives a second 401: its caller is rejected with it and
  no refresh call is sent. The retried request of chain 2, which was queued, receives a
  second 401: a second refresh call is sent, with the new refresh token, and the caller
  is not settled. The marker \<^verbatim>\<open>_retry\<close> is set on the triggering request only.
\<close>

theorem queued_request_refreshes_again:
  "refresh_calls (run (sign_in_and_call @ all_unauthorized @ [RefreshSettles (RefreshOk ''A2'' ''R2'')]) page) =
     [RawPost ''/api/auth/refresh'' None ''R1''] \<and>
   refresh_calls
     (run (sign_in_and_call @ all_unauthorized @
           [RefreshSettles (RefreshOk ''A2'' ''R2''),
            Fail 1 (unauthorized ((sent ''/x'' ''A2'')\<lparr>retry := True\<rparr>))]) page) =
     [RawPost ''/api/auth/refresh'' None ''R1''] \<and>
   outcomes
     (run (sign_in_and_call @ all_unauthorized @
           [RefreshSettles (RefreshOk ''A2'' ''R2''),
            Fail 1 (unauthorized ((sent ''/x'' ''A2'')\<lparr>retry := True\<rparr>))]) page) =
     [(1, Rejected (unauthorized ((sent ''/x'' ''A2'')\<lparr>retry := True\<rparr>)))] \<and>
   refresh_calls
     (run (sign_in_and_call @ all_unauthorized @
           [RefreshSettles (RefreshOk ''A2'' ''R2''), Fail 2 (unauthorized (sent ''/y'' ''A2''))]) page) =
     [RawPost ''/api/auth/refresh'' None ''R1'', RawPost ''/api/auth/refresh'' None ''R2''] \<and>
   outcomes
     (run (sign_in_and_call @ all_unauthorized @
           [RefreshSettles (RefreshOk ''A2'' ''R2''), Fail 2 (unauthorized (sent ''/y'' ''A2''))]) page) = [] \<and>
   isRefreshing
     (run (sign_in_and_call @ all_unauthorized @
           [RefreshSettles (RefreshOk ''A2'' ''R2''), Fail 2 (unauthorized (sent ''/y'' ''A2''))]) page)"
  unfolding run_append dispatched_reached refreshing_from_dispatched
  by (simp add: refresh_calls_def refreshing_page_def dispatched_page_def eval_defs)

text \<open>
  C6. A request that has not been retried after a refresh receives a 401 while the store
  holds no refresh token. Then the credentials are cleared, in memory and in durable
  storage, \<open>navigateToLogin\<close> is called once, the caller is rejected with that 401 at
  once, and no refresh call is sent: nothing is sent, queued or left waiting.
\<close>

theorem missing_refresh_token_short_circuits:
  assumes "\<not> truthy (getRefreshToken w)" and "microtasks w = []" and "\<not> retry r"
  shows "getAccessToken (step (Fail c (unauthorized r)) w) = None \<and>
         getRefreshToken (step (Fail c (unauthorized r)) w) = None \<and>
         getStoredTokens_export (step (Fail c (unauthorized r)) w) = (None, None) \<and>
         navigateToLogin_calls (step (Fail c (unauthorized r)) w) = Suc (navigateToLogin_calls w) \<and>
         outcomes (step (Fail c (unauthorized r)) w) = outcomes w @ [(c, Rejected (unauthorized r))] \<and>
         wire (step (Fail c (unauthorized r)) w) = wire w \<and>
         refreshWaiters (step (Fail c (unauthorized r)) w) = refreshWaiters w \<and>
         failedQueue (step (Fail c (unauthorized r)) w) = failedQueue w"
proof -
  have h: "handle (Fail c (unauthorized r)) w =
             settle c (Rejected (unauthorized r)) (navigateToLogin (clearTokens w))"
    using assms(1,3)
    by (cases "refreshToken w")
       (simp_all add: onRejected_def unauthorized_def getRefreshToken_def)
  have m: "microtasks (settle c (Rejected (unauthorized r)) (navigateToLogin (clearTokens w))) = []"
    using assms(2) by (simp add: settle_def navigateToLogin_frame clearTokens_frame)
  have s: "step (Fail c (unauthorized r)) w =
             settle c (Rejected (unauthorized r)) (navigateToLogin (clearTokens w))"
    unfolding step_def h by (rule drain_empty [OF m])
  have "getStoredTokens_export (step (Fail c (unauthorized r)) w) = getStoredTokens_export (clearTokens w)"
    unfolding s by (rule getStoredTokens_export_cong) (simp_all add: settle_def navigateToLogin_frame)
  then have d: "getStoredTokens_export (step (Fail c (unauthorized r)) w) = (None, None)"
    by (simp add: clearTokens_durable)
  show ?thesis
    unfolding d unfolding s
    by (simp add: settle_def getAccessToken_def getRefreshToken_def navigateToLogin_frame clearTokens_frame)
qed

theorem missing_refresh_token_short_circuits_witness:
  "\<not> truthy (getRefreshToken page) \<and> microtasks page = [] \<and> \<not> retry (get ''/x'') \<and>
   getAccessToken (step (Fail 1 (unauthorized (get ''/x''))) page) = None \<and>
   navigateToLogin_calls (step (Fail 1 (unauthorized (get ''/x''))) page) = 1 \<and>
   outcomes (step (Fail 1 (unauthorized (get ''/x''))) page) = [(1, Rejected (unauthorized (get ''/x'')))] \<and>
   wire (step (Fail 1 (unauthorized (get ''/x''))) page) = []"
proof -
  have h: "\<not> truthy (getRefreshToken page)" "microtasks page = []" "\<not> retry (get ''/x'')"
    by (simp_all add: getRefreshToken_def page_def get_def)
  have o: "outcomes page = []" "navigateToLogin_calls page = 0" "wire page = []"
    by (simp_all add: page_def)
  note t = missing_refresh_token_short_circuits [OF h, of 1]
  show ?thesis
    using t h by (simp add: o)
qed

text \<open>
  A request is retried after a refresh, the application clears the credentials while the
  retry is in flight, and the retry receives a 401: no refresh token is stored then, the
  caller is rejected, and \<open>navigateToLogin\<close> is not called.
\<close>

theorem retried_request_not_redirected:
  "last (wire (run logout_during_retry page)) = ClientSend 1 ((sent ''/x'' ''A2'')\<lparr>retry := True\<rparr>) \<and>
   getRefreshToken (run logout_during_retry page) = None \<and>
   navigateToLogin_calls
     (run (logout_during_retry @ [Fail 1 (unauthorized ((sent ''/x'' ''A2'')\<lparr>retry := True\<rparr>))]) page) = 0 \<and>
   nav_log
     (run (logout_during_retry @ [Fail 1 (unauthorized ((sent ''/x'' ''A2'')\<lparr>retry := True\<rparr>))]) page) = [] \<and>
   outcomes
     (run (logout_during_retry @ [Fail 1 (unauthorized ((sent ''/x'' ''A2'')\<lparr>retry := True\<rparr>))]) page) =
     [(1, Rejected (unauthorized ((sent ''/x'' ''A2'')\<lparr>retry := True\<rparr>)))]"
  by (simp add: logout_during_retry_def eval_defs)

text \<open>
  C9. A request whose marker \<^verbatim>\<open>_retryCount\<close> is not set fails without a response.
  Whatever the credentials and whether or not a refresh is in flight, the marker is set
  to 1 and a timer of 1000 ms is started, and nothing else happens; when the timer fires
  the request is sent again, once; and when this retry fails without a response, in
  whatever state, the caller is rejected with that very error and nothing else happens:
  no timer, nothing sent.
\<close>

theorem network_failure_retried_once:
  assumes "microtasks w = []" and "timers w = []" and "store_ready w"
      and "\<not> truthy_num (retryCount r)"
  shows "step (Fail c (no_response r)) w = w\<lparr>timers := [(1000, c, r\<lparr>retryCount := Some 1\<rparr>)]\<rparr> \<and>
         step TimerFires (step (Fail c (no_response r)) w) =
           w\<lparr>client_calls := client_calls w @ [(c, r\<lparr>retryCount := Some 1\<rparr>)],
             wire := wire w @ [ClientSend c (with_bearer (getAccessToken w) (r\<lparr>retryCount := Some 1\<rparr>))]\<rparr> \<and>
         (\<forall>w2. microtasks w2 = [] \<longrightarrow>
            step (Fail c (no_response (with_bearer (getAccessToken w) (r\<lparr>retryCount := Some 1\<rparr>)))) w2 =
              w2\<lparr>outcomes := outcomes w2 @
                [(c, Rejected (no_response (with_bearer (getAccessToken w) (r\<lparr>retryCount := Some 1\<rparr>))))]\<rparr>)"
proof -
  let ?r1 = "r\<lparr>retryCount := Some 1\<rparr>"
  let ?w1 = "w\<lparr>timers := [(1000, c, ?r1)]\<rparr>"
  have s1: "step (Fail c (no_response r)) w = ?w1"
    using assms(1,2,4) by (simp add: step_def onRejected_def no_response_def drain_empty)
  let ?wa = "w\<lparr>client_calls := client_calls w @ [(c, ?r1)],
               microtasks := map (\<lambda>(c, r). RequestInterceptor c r) [(c, ?r1)] @
                             map (\<lambda>(c, r). RequestInterceptorResume c r) []\<rparr>"
  have h: "handle TimerFires ?w1 = ?wa"
    using assms(1,2) by (simp add: timerFired_def apiClient_def)
  have rdy: "store_ready ?wa"
    using assms(3) by (simp add: store_ready_def)
  have m: "microtasks ?wa = map (\<lambda>(c, r). RequestInterceptor c r) [(c, ?r1)] @
                             map (\<lambda>(c, r). RequestInterceptorResume c r) []"
    by simp
  have s2: "step TimerFires ?w1 =
              w\<lparr>client_calls := client_calls w @ [(c, ?r1)],
                wire := wire w @ [ClientSend c (with_bearer (getAccessToken w) ?r1)]\<rparr>"
    unfolding step_def h drain_interceptors [OF rdy m] using assms(1)
    by (simp add: getAccessToken_def)
  have rc: "retryCount (with_bearer t x) = retryCount x" for t x
    by (cases t) simp_all
  have s3: "step (Fail c (no_response (with_bearer (getAccessToken w) ?r1))) w2 =
              w2\<lparr>outcomes := outcomes w2 @ [(c, Rejected (no_response (with_bearer (getAccessToken w) ?r1)))]\<rparr>"
    if "microtasks w2 = []" for w2
    using that
    by (simp add: step_def onRejected_def no_response_def settle_def drain_empty rc)
  show ?thesis
    unfolding s1 s2 using s3 by blast
qed

theorem network_failure_retried_once_witness:
  "microtasks dispatched_page = [] \<and> timers dispatched_page = [] \<and> store_ready dispatched_page \<and>
   \<not> truthy_num (retryCount (sent ''/x'' ''A1'')) \<and>
   timers (step (Fail 1 (no_response (sent ''/x'' ''A1''))) dispatched_page) =
     [(1000, 1, (sent ''/x'' ''A1'')\<lparr>retryCount := Some 1\<rparr>)] \<and>
   wire (step TimerFires (step (Fail 1 (no_response (sent ''/x'' ''A1''))) dispatched_page)) =
     wire dispatched_page @ [ClientSend 1 ((sent ''/x'' ''A1'')\<lparr>retryCount := Some 1\<rparr>)] \<and>
   step (Fail 1 (no_response ((sent ''/x'' ''A1'')\<lparr>retryCount := Some 1\<rparr>))) dispatched_page =
     dispatched_page\<lparr>outcomes :=
       [(1, Rejected (no_response ((sent ''/x'' ''A1'')\<lparr>retryCount := Some 1\<rparr>)))]\<rparr>"
proof -
  have h: "microtasks dispatched_page = []" "timers dispatched_page = []" "store_ready dispatched_page"
      "\<not> truthy_num (retryCount (sent ''/x'' ''A1''))"
    by (simp_all add: dispatched_page_def page_def store_ready_def sent_def get_def)
  have o: "outcomes dispatched_page = []"
    by (simp add: dispatched_page_def page_def)
  have b: "with_bearer (getAccessToken dispatched_page) ((sent ''/x'' ''A1'')\<lparr>retryCount := Some 1\<rparr>) =
           (sent ''/x'' ''A1'')\<lparr>retryCount := Some 1\<rparr>"
    by (simp add: getAccessToken_def dispatched_page_def sent_def get_def bearer_def)
  note t = network_failure_retried_once [OF h, of 1, unfolded b]
  note t1 = t [THEN conjunct1]
  note t2 = t [THEN conjunct2, THEN conjunct1]
  note t3 = t [THEN conjunct2, THEN conjunct2, rule_format, OF h(1)]
  have 1: "timers (step (Fail 1 (no_response (sent ''/x'' ''A1''))) dispatched_page) =
     [(1000, 1, (sent ''/x'' ''A1'')\<lparr>retryCount := Some 1\<rparr>)]"
    unfolding t1 by simp
  have 2: "wire (step TimerFires (step (Fail 1 (no_response (sent ''/x'' ''A1''))) dispatched_page)) =
     wire dispatched_page @ [ClientSend 1 ((sent ''/x'' ''A1'')\<lparr>retryCount := Some 1\<rparr>)]"
    unfolding t2 by simp
  show ?thesis
    using h 1 2 t3 by (simp add: o)
qed

end
